theory Spec2Isabelle
  imports Main "HOL-Library.AList"
begin

section \<open>JavaScript values\<close>

text \<open>
  The generator works on a parsed OpenAPI document: plain JavaScript values built from
  objects, arrays, strings, numbers, booleans, \<open>null\<close> and \<open>undefined\<close>. A schema
  node is copied key by key (\<open>{ ...schema }\<close>), so schema nodes are kept as generic
  values; an object is its list of own enumerable properties in insertion order.
  The rule that lists integer-like keys first is not modelled. Numbers are the
  integer-valued ones, and each \<open>char\<close> stands for one code unit of a JavaScript
  string.
\<close>

datatype jsval =
    JUndefined
  | JNull
  | JBool bool
  | JNum int
  | JStr string
  | JArr "jsval list"
  | JObj "(string \<times> jsval) list"

text \<open>The exceptions the modelled code can raise.\<close>

datatype error =
    TypeError     \<comment> \<open>\<open>'$ref' in schema\<close> on a value that is not an object\<close>
  | RangeError    \<comment> \<open>maximum call stack size exceeded\<close>

subsection \<open>Numbers and strings\<close>

definition digit_char :: "nat \<Rightarrow> char" where
  "digit_char n = char_of (48 + n)"

fun string_of_nat :: "nat \<Rightarrow> string" where
  "string_of_nat n =
    (if n < 10 then [digit_char n]
     else string_of_nat (n div 10) @ [digit_char (n mod 10)])"

declare string_of_nat.simps [simp del]

definition string_of_int :: "int \<Rightarrow> string" where
  "string_of_int i = (if i < 0 then CHR ''-'' # string_of_nat (nat (- i)) else string_of_nat (nat i))"

fun join_comma :: "string list \<Rightarrow> string" where
  "join_comma [] = []"
| "join_comma [s] = s"
| "join_comma (s # t # ss) = s @ '','' @ join_comma (t # ss)"

text \<open>\<open>String(v)\<close>, also the conversion inside a template literal.\<close>

fun String_js :: "jsval \<Rightarrow> string" where
  "String_js JUndefined = ''undefined''"
| "String_js JNull = ''null''"
| "String_js (JBool b) = (if b then ''true'' else ''false'')"
| "String_js (JNum i) = string_of_int i"
| "String_js (JStr s) = s"
| "String_js (JArr xs) =
     join_comma (map (\<lambda>x. if x = JUndefined \<or> x = JNull then [] else String_js x) xs)"
| "String_js (JObj kvs) = ''[object Object]''"



text \<open>\<open>xs.join(sep)\<close>.\<close>

fun join_with :: "string \<Rightarrow> string list \<Rightarrow> string" where
  "join_with sep [] = []"
| "join_with sep [s] = s"
| "join_with sep (s # t # ss) = s @ sep @ join_with sep (t # ss)"

text \<open>\<open>s.toUpperCase()\<close>, on the letters a to z.\<close>

definition toUpperCase :: "string \<Rightarrow> string" where
  "toUpperCase s =
     map (\<lambda>c. if 97 \<le> (of_char c :: nat) \<and> (of_char c :: nat) \<le> 122
               then char_of ((of_char c :: nat) - 32) else c) s"

text \<open>\<open>s.toLowerCase()\<close>, on the letters A to Z.\<close>

definition toLowerCase :: "string \<Rightarrow> string" where
  "toLowerCase s =
     map (\<lambda>c. if 65 \<le> (of_char c :: nat) \<and> (of_char c :: nat) \<le> 90
               then char_of ((of_char c :: nat) + 32) else c) s"

text \<open>\<open>s.includes(pat)\<close>.\<close>

fun str_includes :: "string \<Rightarrow> string \<Rightarrow> bool" where
  "str_includes [] pat = (pat = [])"
| "str_includes (c # cs) pat = (take (length pat) (c # cs) = pat \<or> str_includes cs pat)"

text \<open>
  \<open>s.replace(pat, rep)\<close> with a string pattern: the first occurrence is replaced. The
  replacement is the result of \<open>encodeURIComponent\<close>, which has no \<open>$\<close>, so it is
  inserted as it is.
\<close>

fun replace_first :: "string \<Rightarrow> string \<Rightarrow> string \<Rightarrow> string" where
  "replace_first pat rep [] = (if pat = [] then rep else [])"
| "replace_first pat rep (c # cs) =
     (if take (length pat) (c # cs) = pat then rep @ drop (length pat) (c # cs)
      else c # replace_first pat rep cs)"

text \<open>
  \<open>s.replace(/\/$/, '')\<close>: the pattern is tried at each position from the left and
  matches a slash that is the last character.
\<close>

fun replace_trailing_slash :: "string \<Rightarrow> string" where
  "replace_trailing_slash [] = []"
| "replace_trailing_slash (c # cs) =
     (if c = CHR ''/'' \<and> cs = [] then [] else c # replace_trailing_slash cs)"

subsection \<open>Property access and tests\<close>

definition index_keys :: "nat \<Rightarrow> string list" where
  "index_keys n = map string_of_nat [0..<n]"

text \<open>
  The own enumerable properties of a value, as \<open>Object.entries\<close> and the spread
  \<open>{ ...v }\<close> list them: the entries of an object, the indexed elements of an array,
  the indexed characters of a string, nothing for the other primitives.
\<close>

fun own_entries :: "jsval \<Rightarrow> (string \<times> jsval) list" where
  "own_entries (JObj kvs) = kvs"
| "own_entries (JArr xs) = zip (index_keys (length xs)) xs"
| "own_entries (JStr s) = zip (index_keys (length s)) (map (\<lambda>c. JStr [c]) s)"
| "own_entries _ = []"

text \<open>\<open>obj[k]\<close>: the value stored under the key, \<open>undefined\<close> when there is none.\<close>

definition jsget :: "(string \<times> jsval) list \<Rightarrow> string \<Rightarrow> jsval" where
  "jsget kvs k = (case map_of kvs k of None \<Rightarrow> JUndefined | Some v \<Rightarrow> v)"

text \<open>\<open>k in obj\<close> for an own key.\<close>

definition has_key :: "string \<Rightarrow> (string \<times> jsval) list \<Rightarrow> bool" where
  "has_key k kvs = (k \<in> fst ` set kvs)"

text \<open>A run of \<open>delete obj.k\<close> statements.\<close>

definition delete_keys :: "string list \<Rightarrow> (string \<times> jsval) list \<Rightarrow> (string \<times> jsval) list" where
  "delete_keys ks kvs = filter (\<lambda>kv. fst kv \<notin> set ks) kvs"

text \<open>Truthiness, as \<open>if (v)\<close>, \<open>!v\<close> and \<open>a || b\<close> test it.\<close>

fun truthy :: "jsval \<Rightarrow> bool" where
  "truthy JUndefined = False"
| "truthy JNull = False"
| "truthy (JBool b) = b"
| "truthy (JNum i) = (i \<noteq> 0)"
| "truthy (JStr s) = (s \<noteq> [])"
| "truthy (JArr xs) = True"
| "truthy (JObj kvs) = True"

text \<open>\<open>typeof v === 'object' && v !== null\<close>: objects and arrays.\<close>

fun is_object :: "jsval \<Rightarrow> bool" where
  "is_object (JArr xs) = True"
| "is_object (JObj kvs) = True"
| "is_object v = False"

text \<open>\<open>typeof v === 'boolean'\<close>.\<close>

fun is_bool :: "jsval \<Rightarrow> bool" where
  "is_bool (JBool b) = True"
| "is_bool v = False"

text \<open>
  \<open>obj[k] = v\<close> through a computed key, on an object that a literal \<open>{}\<close> created.
  The object is kept as its own properties and its prototype, which is
  \<open>Object.prototype\<close> until an assignment replaces it. \<open>Object.prototype\<close> provides
  \<open>__proto__\<close> as an accessor. An assignment to that key which finds the accessor
  creates no own property: it makes an object (or \<open>null\<close>) the new prototype and
  ignores any other value. The accessor is found unless the object has an own property
  \<open>__proto__\<close>, or its prototype has been replaced by \<open>null\<close> or by an object that
  has such an own property. Every other assignment creates or overwrites an own
  property. The values that replace a prototype here are schemas built by a literal or a
  spread, so their own prototype is \<open>Object.prototype\<close>.
\<close>

datatype prototype =
    ObjectPrototype
  | Replaced jsval

fun finds_accessor :: "prototype \<Rightarrow> bool" where
  "finds_accessor ObjectPrototype = True"
| "finds_accessor (Replaced p) = (is_object p \<and> \<not> has_key ''__proto__'' (own_entries p))"

definition assign ::
  "string \<Rightarrow> jsval \<Rightarrow> (string \<times> jsval) list \<times> prototype \<Rightarrow> (string \<times> jsval) list \<times> prototype"
where
  "assign k v obj =
    (case obj of (own, proto) \<Rightarrow>
       if k = ''__proto__'' \<and> \<not> has_key k own \<and> finds_accessor proto
       then (own, if is_object v \<or> v = JNull then Replaced v else proto)
       else (AList.update k v own, proto))"

text \<open>\<open>typeof v !== 'undefined' && v !== null\<close>.\<close>

definition present :: "jsval \<Rightarrow> bool" where
  "present v = (v \<noteq> JUndefined \<and> v \<noteq> JNull)"

text \<open>An optional string read through \<open>a || b\<close>: absent and empty are both falsy.\<close>

fun truthy_str :: "string option \<Rightarrow> bool" where
  "truthy_str None = False"
| "truthy_str (Some s) = (s \<noteq> [])"

text \<open>\<open>a || b\<close> on an optional string and a default.\<close>

fun or_else :: "string option \<Rightarrow> string \<Rightarrow> string" where
  "or_else None d = d"
| "or_else (Some s) d = (if s \<noteq> [] then s else d)"

section \<open>Schema translation: \<open>mapOpenApiSchemaToJsonSchema\<close>\<close>

text \<open>
  The fields deleted from the copy besides \<open>nullable\<close>: they only document the
  schema.
\<close>

definition presentation_fields :: "string list" where
  "presentation_fields =
    [''example'', ''xml'', ''externalDocs'', ''deprecated'', ''readOnly'', ''writeOnly'']"

text \<open>
  The new value of \<open>jsonSchema.type\<close> for a nullable node: \<open>'null'\<close> is pushed onto
  an array that lacks it, a string becomes a two-element array, a falsy value becomes
  \<open>'null'\<close>, and any other value is left as it is.
\<close>

fun nullable_type :: "jsval \<Rightarrow> jsval" where
  "nullable_type (JArr ts) = (if JStr ''null'' \<in> set ts then JArr ts else JArr (ts @ [JStr ''null'']))"
| "nullable_type (JStr s) = JArr [JStr s, JStr ''null'']"
| "nullable_type t = (if \<not> truthy t then JStr ''null'' else t)"

text \<open>
  The straight-line part of the function: the shallow copy, the coercion of
  \<open>'integer'\<close>, the deletions and the nullable rewrite. The tests read the source node
  \<open>schema\<close>, the assignments go to the copy.
\<close>

definition schema_head :: "jsval \<Rightarrow> (string \<times> jsval) list" where
  "schema_head schema =
    (let jsonSchema = own_entries schema;
         jsonSchema = (if jsget (own_entries schema) ''type'' = JStr ''integer''
                       then AList.update ''type'' (JStr ''number'') jsonSchema else jsonSchema);
         jsonSchema = delete_keys (''nullable'' # presentation_fields) jsonSchema
     in if truthy (jsget (own_entries schema) ''nullable'')
        then AList.update ''type'' (nullable_type (jsget jsonSchema ''type'')) jsonSchema
        else jsonSchema)"

text \<open>The schema emitted for an unresolved reference.\<close>

definition unresolved_ref :: "jsval \<Rightarrow> jsval" where
  "unresolved_ref schema =
     JObj [(''type'', JStr ''object''),
           (''description'', JStr (''Unresolved: '' @ String_js (jsget (own_entries schema) ''$ref'')))]"

subsection \<open>Termination\<close>

text \<open>A size that counts objects and arrays only; it decreases along every recursive call.\<close>

fun nodes :: "jsval \<Rightarrow> nat" where
  "nodes (JArr xs) = Suc (sum_list (map nodes xs))"
| "nodes (JObj kvs) = Suc (sum_list (map (\<lambda>kv. nodes (snd kv)) kvs))"
| "nodes v = 0"

lemma map_snd_zip_keys:
  "length ks = length xs \<Longrightarrow> map (\<lambda>kv. f (snd kv)) (zip ks xs) = map f xs"
  by (induction ks xs rule: list_induct2) simp_all

lemma length_index_keys [simp]: "length (index_keys n) = n"
  by (simp add: index_keys_def)

lemma nodes_sum_cases:
  "0 < (\<Sum>kv\<leftarrow>rest. nodes (snd kv)) \<or> (\<forall>n\<in>set rest. nodes (snd n) = 0)"
  by (induction rest) auto

lemma nodes_member_le: "kv \<in> set kvs \<Longrightarrow> nodes (snd kv) \<le> (\<Sum>kv\<leftarrow>kvs. nodes (snd kv))"
  by (induction kvs) auto

lemma nodes_jsget_le: "nodes (jsget kvs k) \<le> (\<Sum>kv\<leftarrow>kvs. nodes (snd kv))"
  by (induction kvs) (auto simp: jsget_def)

lemma nodes_own_entries_le: "(\<Sum>kv\<leftarrow>own_entries v. nodes (snd kv)) \<le> nodes v"
proof (cases v)
  case (JStr s)
  then show ?thesis by (simp add: map_snd_zip_keys comp_def)
next
  case (JArr xs)
  then show ?thesis by (simp add: map_snd_zip_keys)
qed simp_all

lemma nodes_own_entries_less:
  "is_object v \<Longrightarrow> (\<Sum>kv\<leftarrow>own_entries v. nodes (snd kv)) < nodes v"
proof (cases v)
  case (JArr xs)
  then show ?thesis by (simp add: map_snd_zip_keys)
qed simp_all

lemma jsget_update: "jsget (AList.update k v kvs) k' = (if k' = k then v else jsget kvs k')"
  by (simp add: jsget_def update_conv')

lemma jsget_delete_keys:
  "jsget (delete_keys ks kvs) k = (if k \<in> set ks then JUndefined else jsget kvs k)"
  by (induction kvs) (auto simp: jsget_def delete_keys_def)

lemma jsget_schema_head_other:
  "k \<noteq> ''type'' \<Longrightarrow> k \<notin> set (''nullable'' # presentation_fields) \<Longrightarrow>
   jsget (schema_head schema) k = jsget (own_entries schema) k"
  by (simp add: schema_head_def Let_def jsget_update jsget_delete_keys)

lemma nodes_schema_head_field:
  assumes "is_object schema" "k \<noteq> ''type''" "k \<notin> set (''nullable'' # presentation_fields)"
  shows "nodes (jsget (schema_head schema) k) < nodes schema"
proof -
  have "nodes (jsget (schema_head schema) k) = nodes (jsget (own_entries schema) k)"
    using assms(2,3) by (simp add: jsget_schema_head_other del: set_simps)
  also have "\<dots> \<le> (\<Sum>kv\<leftarrow>own_entries schema. nodes (snd kv))" by (rule nodes_jsget_le)
  also have "\<dots> < nodes schema" using assms(1) by (rule nodes_own_entries_less)
  finally show ?thesis .
qed

subsection \<open>The translator\<close>

text \<open>
  The translator on a document held by value (a finite tree). \<open>'$ref' in schema\<close>
  throws a TypeError on a primitive, so the test \<open>typeof schema === 'boolean'\<close> after
  it is never reached with a boolean. \<open>mapProperties\<close> is the \<open>for\<close> loop over
  \<open>Object.entries(jsonSchema.properties)\<close>, with \<open>mappedProps\<close> as its accumulator:
  an object or array entry is translated, a boolean entry is copied, any other entry is
  dropped. The keys of one object are distinct, so \<open>__proto__\<close> is assigned at most
  once, while the prototype of \<open>mappedProps\<close> is still \<open>Object.prototype\<close>; the
  own properties of \<open>mappedProps\<close> are all that is read of it afterwards.
\<close>

function mapOpenApiSchemaToJsonSchema :: "jsval \<Rightarrow> error + jsval"
  and mapProperties ::
    "(string \<times> jsval) list \<Rightarrow> (string \<times> jsval) list \<Rightarrow> error + (string \<times> jsval) list"
where
  "mapOpenApiSchemaToJsonSchema schema =
    (if \<not> is_object schema then Inl TypeError
     else if has_key ''$ref'' (own_entries schema) then Inr (unresolved_ref schema)
     else
       let jsonSchema = schema_head schema in
       case (if jsget jsonSchema ''type'' = JStr ''object'' \<and> truthy (jsget jsonSchema ''properties'')
             then (case mapProperties (own_entries (jsget jsonSchema ''properties'')) [] of
                     Inl e \<Rightarrow> Inl e
                   | Inr mappedProps \<Rightarrow>
                       Inr (AList.update ''properties'' (JObj mappedProps) jsonSchema))
             else Inr jsonSchema) of
         Inl e \<Rightarrow> Inl e
       | Inr jsonSchema' \<Rightarrow>
           if jsget jsonSchema' ''type'' = JStr ''array'' \<and> is_object (jsget jsonSchema' ''items'')
           then (case mapOpenApiSchemaToJsonSchema (jsget jsonSchema' ''items'') of
                   Inl e \<Rightarrow> Inl e
                 | Inr its \<Rightarrow> Inr (JObj (AList.update ''items'' its jsonSchema')))
           else Inr (JObj jsonSchema'))"
| "mapProperties [] mappedProps = Inr mappedProps"
| "mapProperties ((key, propSchema) # rest) mappedProps =
    (if is_object propSchema then
       (case mapOpenApiSchemaToJsonSchema propSchema of
          Inl e \<Rightarrow> Inl e
        | Inr r \<Rightarrow> mapProperties rest (fst (assign key r (mappedProps, ObjectPrototype))))
     else if is_bool propSchema
     then mapProperties rest (fst (assign key propSchema (mappedProps, ObjectPrototype)))
     else mapProperties rest mappedProps)"
  by pat_completeness auto
termination
  apply (relation "measures
      [\<lambda>x. case x of Inl v \<Rightarrow> nodes v | Inr (ps, acc) \<Rightarrow> (\<Sum>kv\<leftarrow>ps. nodes (snd kv)),
       \<lambda>x. case x of Inl v \<Rightarrow> 0 | Inr (ps, acc) \<Rightarrow> Suc (length ps)]")
  subgoal by simp
  subgoal for schema x
    using nodes_own_entries_le [of "jsget (schema_head schema) ''properties''"]
          nodes_schema_head_field [of schema "''properties''"]
    by (simp add: presentation_fields_def)
  subgoal for schema x b
    using nodes_schema_head_field [of schema "''items''"]
    by (auto simp: presentation_fields_def jsget_update split: if_splits sum.splits)
  subgoal using nodes_sum_cases by simp
  subgoal by auto
  subgoal by auto
  subgoal by auto
  done

declare mapOpenApiSchemaToJsonSchema.simps [simp del]

section \<open>Schema translation on shared and cyclic documents\<close>

text \<open>
  A dereferenced document is a graph: a schema object may be reachable from itself, and
  every object has an identity. Here objects and arrays live in a store, a value is a
  primitive or a reference into the store, and the translator allocates its copies and
  assigns to them as the source does. The JavaScript call stack is bounded: a call
  nested deeper than the bound raises a RangeError. The conversion of a value to a
  string (used for the text of an unresolved reference) is a parameter.
\<close>

type_synonym addr = nat

datatype hval =
    HUndefined
  | HNull
  | HBool bool
  | HNum int
  | HStr string
  | HRef addr

datatype hobj =
    HObject "(string \<times> hval) list"
  | HArray "hval list"

type_synonym heap = "hobj list"

fun h_entries :: "heap \<Rightarrow> hval \<Rightarrow> (string \<times> hval) list" where
  "h_entries h (HRef a) =
     (if a < length h
      then (case h ! a of HObject kvs \<Rightarrow> kvs | HArray xs \<Rightarrow> zip (index_keys (length xs)) xs)
      else [])"
| "h_entries h (HStr s) = zip (index_keys (length s)) (map (\<lambda>c. HStr [c]) s)"
| "h_entries h v = []"

definition hget :: "(string \<times> hval) list \<Rightarrow> string \<Rightarrow> hval" where
  "hget kvs k = (case map_of kvs k of None \<Rightarrow> HUndefined | Some v \<Rightarrow> v)"

fun h_truthy :: "hval \<Rightarrow> bool" where
  "h_truthy HUndefined = False"
| "h_truthy HNull = False"
| "h_truthy (HBool b) = b"
| "h_truthy (HNum i) = (i \<noteq> 0)"
| "h_truthy (HStr s) = (s \<noteq> [])"
| "h_truthy (HRef a) = True"

fun h_is_object :: "hval \<Rightarrow> bool" where
  "h_is_object (HRef a) = True"
| "h_is_object v = False"

fun h_is_bool :: "hval \<Rightarrow> bool" where
  "h_is_bool (HBool b) = True"
| "h_is_bool v = False"

text \<open>\<open>obj[k] = v\<close> and \<open>delete obj.k\<close> on the object at an address.\<close>

definition h_set :: "heap \<Rightarrow> addr \<Rightarrow> string \<Rightarrow> hval \<Rightarrow> heap" where
  "h_set h a k v =
     (if a < length h
      then (case h ! a of HObject kvs \<Rightarrow> h[a := HObject (AList.update k v kvs)] | HArray xs \<Rightarrow> h)
      else h)"

text \<open>
  \<open>mappedProps[key] = v\<close>, on the object at an address: the store keeps the own
  properties, and the assignment that finds the accessor \<open>__proto__\<close> changes none of
  them.
\<close>

definition h_assign :: "heap \<Rightarrow> addr \<Rightarrow> string \<Rightarrow> hval \<Rightarrow> heap" where
  "h_assign h a k v =
     (if k = ''__proto__'' \<and> k \<notin> fst ` set (h_entries h (HRef a)) then h else h_set h a k v)"

definition h_delete :: "heap \<Rightarrow> addr \<Rightarrow> string list \<Rightarrow> heap" where
  "h_delete h a ks =
     (if a < length h
      then (case h ! a of
              HObject kvs \<Rightarrow> h[a := HObject (filter (\<lambda>kv. fst kv \<notin> set ks) kvs)]
            | HArray xs \<Rightarrow> h)
      else h)"

text \<open>
  The nullable rewrite of the copy at address \<open>c\<close>: \<open>push\<close> changes the array the
  copy shares with the source node, a string is replaced by a fresh array.
\<close>

definition h_nullable :: "heap \<Rightarrow> addr \<Rightarrow> heap" where
  "h_nullable h c =
     (case hget (h_entries h (HRef c)) ''type'' of
        HRef a \<Rightarrow>
          (if a < length h
           then (case h ! a of
                   HArray ts \<Rightarrow>
                     if HStr ''null'' \<in> set ts then h else h[a := HArray (ts @ [HStr ''null''])]
                 | HObject kvs \<Rightarrow> h)
           else h)
      | HStr s \<Rightarrow> h_set (h @ [HArray [HStr s, HStr ''null'']]) c ''type'' (HRef (length h))
      | t \<Rightarrow> if \<not> h_truthy t then h_set h c ''type'' (HStr ''null'') else h)"

text \<open>
  The straight-line part: the copy is allocated at the next free address, which is
  returned with the new store.
\<close>

definition h_schema_head :: "heap \<Rightarrow> hval \<Rightarrow> addr \<times> heap" where
  "h_schema_head h schema =
    (let source = h_entries h schema;
         c = length h;
         h = h @ [HObject source];
         h = (if hget source ''type'' = HStr ''integer''
              then h_set h c ''type'' (HStr ''number'') else h);
         h = h_delete h c (''nullable'' # presentation_fields)
     in (c, if h_truthy (hget source ''nullable'') then h_nullable h c else h))"

fun mapSchemaH ::
  "(heap \<Rightarrow> hval \<Rightarrow> string) \<Rightarrow> nat \<Rightarrow> heap \<Rightarrow> hval \<Rightarrow> error + (hval \<times> heap)"
  and mapPropertiesH ::
  "(heap \<Rightarrow> hval \<Rightarrow> string) \<Rightarrow> nat \<Rightarrow> heap \<Rightarrow> (string \<times> hval) list \<Rightarrow> addr \<Rightarrow> error + heap"
where
  "mapSchemaH toStr 0 h schema = Inl RangeError"
| "mapSchemaH toStr (Suc depth) h schema =
    (if \<not> h_is_object schema then Inl TypeError
     else if ''$ref'' \<in> fst ` set (h_entries h schema) then
       Inr (HRef (length h),
            h @ [HObject [(''type'', HStr ''object''),
                          (''description'',
                           HStr (''Unresolved: '' @ toStr h (hget (h_entries h schema) ''$ref'')))]])
     else
       case h_schema_head h schema of (jsonSchema, h1) \<Rightarrow>
       case (if hget (h_entries h1 (HRef jsonSchema)) ''type'' = HStr ''object'' \<and>
                h_truthy (hget (h_entries h1 (HRef jsonSchema)) ''properties'')
             then (case mapPropertiesH toStr depth (h1 @ [HObject []])
                          (h_entries h1 (hget (h_entries h1 (HRef jsonSchema)) ''properties''))
                          (length h1) of
                     Inl e \<Rightarrow> Inl e
                   | Inr h2 \<Rightarrow> Inr (h_set h2 jsonSchema ''properties'' (HRef (length h1))))
             else Inr h1) of
         Inl e \<Rightarrow> Inl e
       | Inr h3 \<Rightarrow>
           if hget (h_entries h3 (HRef jsonSchema)) ''type'' = HStr ''array'' \<and>
              h_is_object (hget (h_entries h3 (HRef jsonSchema)) ''items'')
           then (case mapSchemaH toStr depth h3 (hget (h_entries h3 (HRef jsonSchema)) ''items'') of
                   Inl e \<Rightarrow> Inl e
                 | Inr (its, h4) \<Rightarrow> Inr (HRef jsonSchema, h_set h4 jsonSchema ''items'' its))
           else Inr (HRef jsonSchema, h3))"
| "mapPropertiesH toStr depth h [] mappedProps = Inr h"
| "mapPropertiesH toStr depth h ((key, propSchema) # rest) mappedProps =
    (if h_is_object propSchema then
       (case mapSchemaH toStr depth h propSchema of
          Inl e \<Rightarrow> Inl e
        | Inr (r, h') \<Rightarrow> mapPropertiesH toStr depth (h_assign h' mappedProps key r) rest mappedProps)
     else if h_is_bool propSchema then
       mapPropertiesH toStr depth (h_assign h mappedProps key propSchema) rest mappedProps
     else mapPropertiesH toStr depth h rest mappedProps)"

section \<open>The API description\<close>

record ParameterObject =
  p_name :: string
  p_in :: string
  p_description :: "string option"
  p_required :: bool
  p_schema :: jsval

record MediaTypeObject =
  mt_schema :: jsval

record RequestBodyObject =
  rb_description :: "string option"
  rb_content :: "(string \<times> MediaTypeObject) list"
  rb_required :: bool

record OperationObject =
  op_operationId :: "string option"
  op_summary :: "string option"
  op_description :: "string option"
  op_parameters :: "ParameterObject list"
  op_requestBody :: "RequestBodyObject option"

type_synonym PathItemObject = "(string \<times> OperationObject) list"

record ServerObject =
  srv_url :: string

record Document =
  doc_servers :: "ServerObject list option"
  doc_paths :: "(string \<times> PathItemObject option) list option"

record McpToolDefinition =
  t_name :: string
  t_description :: string
  t_inputSchema :: jsval
  t_operationId :: string
  t_method :: string
  t_path :: string
  t_parameters :: "ParameterObject list"
  t_requestBody :: "RequestBodyObject option"

section \<open>Input schema assembly: \<open>generateInputSchema\<close>\<close>

text \<open>\<open>if (typeof s === 'object') s.description = d\<close>, on a translated schema.\<close>

fun set_description :: "jsval \<Rightarrow> jsval \<Rightarrow> jsval" where
  "set_description d (JObj kvs) = JObj (AList.update ''description'' d kvs)"
| "set_description d v = v"

text \<open>
  The \<open>forEach\<close> over the parameters, with \<open>properties\<close> and \<open>required\<close> as state.
  Parameter names can repeat and can be \<open>__proto__\<close>, so \<open>properties\<close> is kept with
  its prototype.
\<close>

fun addParameters ::
  "ParameterObject list \<Rightarrow> ((string \<times> jsval) list \<times> prototype) \<times> string list \<Rightarrow>
   error + (((string \<times> jsval) list \<times> prototype) \<times> string list)"
where
  "addParameters [] st = Inr st"
| "addParameters (param # rest) (properties, required) =
    (if p_name param = [] \<or> \<not> truthy (p_schema param) then addParameters rest (properties, required)
     else case mapOpenApiSchemaToJsonSchema (p_schema param) of
       Inl e \<Rightarrow> Inl e
     | Inr paramSchema \<Rightarrow>
         addParameters rest
           (assign (p_name param)
              (set_description
                 (if truthy_str (p_description param) then JStr (or_else (p_description param) [])
                  else jsget (own_entries paramSchema) ''description'')
                 paramSchema)
              properties,
            if p_required param then required @ [p_name param] else required))"

text \<open>
  The request-body part: a JSON schema when there is one, else a string placeholder. The
  key \<open>requestBody\<close> names an own property of \<open>properties\<close> whatever its prototype
  is, so the own properties are all this part needs.
\<close>

definition json_schema_of :: "RequestBodyObject \<Rightarrow> jsval option" where
  "json_schema_of opRequestBody =
     (case map_of (rb_content opRequestBody) ''application/json'' of
        None \<Rightarrow> None
      | Some jsonContent \<Rightarrow>
          if truthy (mt_schema jsonContent) then Some (mt_schema jsonContent) else None)"

definition addRequestBody ::
  "RequestBodyObject option \<Rightarrow> (string \<times> jsval) list \<times> string list \<Rightarrow>
   error + ((string \<times> jsval) list \<times> string list)"
where
  "addRequestBody body st =
    (case body of
       None \<Rightarrow> Inr st
     | Some opRequestBody \<Rightarrow>
        (case st of (properties, required) \<Rightarrow>
          (case json_schema_of opRequestBody of
             Some schema \<Rightarrow>
               (case mapOpenApiSchemaToJsonSchema schema of
                  Inl e \<Rightarrow> Inl e
                | Inr bodySchema \<Rightarrow>
                    Inr (AList.update ''requestBody''
                           (set_description
                              (if truthy_str (rb_description opRequestBody)
                               then JStr (or_else (rb_description opRequestBody) [])
                               else if truthy (jsget (own_entries bodySchema) ''description'')
                               then jsget (own_entries bodySchema) ''description''
                               else JStr ''The JSON request body.'')
                              bodySchema)
                           properties,
                         if rb_required opRequestBody then required @ [''requestBody''] else required))
           | None \<Rightarrow>
               (case rb_content opRequestBody of
                  [] \<Rightarrow> Inr st
                | (contentType, media) # others \<Rightarrow>
                    Inr (AList.update ''requestBody''
                           (JObj [(''type'', JStr ''string''),
                                  (''description'',
                                   JStr (or_else (rb_description opRequestBody)
                                           (''Request body (content type: '' @ contentType @ '')'')))])
                           properties,
                         if rb_required opRequestBody then required @ [''requestBody''] else required)))))"

text \<open>
  The returned schema lists the own properties of \<open>properties\<close>, which are what
  \<open>Object.keys\<close> and \<open>JSON.stringify\<close> show of it.
\<close>

definition generateInputSchema ::
  "OperationObject \<Rightarrow> error + (jsval \<times> ParameterObject list \<times> RequestBodyObject option)"
where
  "generateInputSchema operation =
    (case addParameters (op_parameters operation) (([], ObjectPrototype), []) of
       Inl e \<Rightarrow> Inl e
     | Inr ((properties, proto), required) \<Rightarrow>
        (case addRequestBody (op_requestBody operation) (properties, required) of
           Inl e \<Rightarrow> Inl e
         | Inr (properties, required) \<Rightarrow>
             Inr (JObj ([(''type'', JStr ''object''), (''properties'', JObj properties)] @
                        (if length required > 0 then [(''required'', JArr (map JStr required))] else [])),
                  op_parameters operation, op_requestBody operation)))"

section \<open>Tool extraction: \<open>extractToolsFromApi\<close>\<close>

text \<open>The \<open>k\<close>-th candidate name.\<close>

definition suffixed :: "string \<Rightarrow> nat \<Rightarrow> string" where
  "suffixed baseName k = baseName @ ''_'' @ string_of_nat k"

subsection \<open>Termination of the naming loop\<close>

lemma string_of_nat_nonempty: "string_of_nat n \<noteq> []"
  by (subst string_of_nat.simps) simp

lemma digit_char_inj: "a < 10 \<Longrightarrow> b < 10 \<Longrightarrow> digit_char a = digit_char b \<Longrightarrow> a = b"
proof -
  assume a: "a < 10" and b: "b < 10" and eq: "digit_char a = digit_char b"
  from eq have "(of_char (char_of (48 + a)) :: nat) = of_char (char_of (48 + b))"
    by (simp add: digit_char_def)
  with a b show "a = b" by simp
qed

lemma string_of_nat_inj: "string_of_nat m = string_of_nat n \<Longrightarrow> m = n"
proof (induction m arbitrary: n rule: string_of_nat.induct)
  case (1 m)
  show ?case
  proof (cases "m < 10")
    case small: True
    show ?thesis
    proof (cases "n < 10")
      case True
      with small "1.prems" show ?thesis
        by (simp add: string_of_nat.simps [of m] string_of_nat.simps [of n] digit_char_inj)
    next
      case False
      with small "1.prems" string_of_nat_nonempty [of "n div 10"] show ?thesis
        by (simp add: string_of_nat.simps [of m] string_of_nat.simps [of n] Cons_eq_append_conv)
    qed
  next
    case big: False
    show ?thesis
    proof (cases "n < 10")
      case True
      with big "1.prems" string_of_nat_nonempty [of "m div 10"] show ?thesis
        by (simp add: string_of_nat.simps [of m] string_of_nat.simps [of n] append_eq_Cons_conv)
    next
      case False
      with big "1.prems" have eq: "string_of_nat (m div 10) = string_of_nat (n div 10)"
        and d: "digit_char (m mod 10) = digit_char (n mod 10)"
        by (simp_all add: string_of_nat.simps [of m] string_of_nat.simps [of n])
      from "1.IH" [OF big eq] have "m div 10 = n div 10" .
      moreover from d have "m mod 10 = n mod 10" by (simp add: digit_char_inj)
      ultimately show ?thesis by (metis div_mult_mod_eq)
    qed
  qed
qed

lemma suffixed_inj: "suffixed b j = suffixed b k \<Longrightarrow> j = k"
  by (simp add: suffixed_def string_of_nat_inj)

lemma finite_suffixed_used: "finite {k. c \<le> k \<and> suffixed b k \<in> set used}"
proof -
  have "inj (suffixed b)" by (rule injI) (rule suffixed_inj)
  then have "finite (suffixed b -` set used)" by (simp add: finite_vimageI)
  moreover have "{k. c \<le> k \<and> suffixed b k \<in> set used} \<subseteq> suffixed b -` set used" by auto
  ultimately show ?thesis by (rule rev_finite_subset)
qed

subsection \<open>The loops\<close>

text \<open>
  The loop \<open>while (usedNames.has(finalToolName)) finalToolName = `${baseName}_${counter++}`\<close>,
  on the loop variables \<open>finalToolName\<close> and \<open>counter\<close>. The set \<open>usedNames\<close> is held
  as the list of the names added so far.
\<close>

function resolveName :: "string list \<Rightarrow> string \<Rightarrow> string \<Rightarrow> nat \<Rightarrow> string" where
  "resolveName usedNames baseName finalToolName counter =
     (if finalToolName \<in> set usedNames
      then resolveName usedNames baseName (suffixed baseName counter) (Suc counter)
      else finalToolName)"
  by pat_completeness auto
termination
proof (relation "measure (\<lambda>(usedNames, baseName, finalToolName, counter).
          card {k. counter \<le> k \<and> suffixed baseName k \<in> set usedNames} +
          (if finalToolName \<in> set usedNames then 1 else 0))")
  show "wf (measure (\<lambda>(usedNames, baseName, finalToolName, counter).
          card {k. counter \<le> k \<and> suffixed baseName k \<in> set usedNames} +
          (if finalToolName \<in> set usedNames then 1 else 0)))"
    by simp
next
  fix usedNames :: "string list" and baseName finalToolName :: string and counter :: nat
  assume used: "finalToolName \<in> set usedNames"
  let ?A = "{k. counter \<le> k \<and> suffixed baseName k \<in> set usedNames}"
  let ?B = "{k. Suc counter \<le> k \<and> suffixed baseName k \<in> set usedNames}"
  have fin: "finite ?A" by (rule finite_suffixed_used)
  have "card ?B + (if suffixed baseName counter \<in> set usedNames then 1 else 0) = card ?A"
  proof (cases "suffixed baseName counter \<in> set usedNames")
    case True
    then have "?A = insert counter ?B" by (auto simp: le_Suc_eq)
    moreover have "counter \<notin> ?B" by simp
    moreover have "finite ?B" by (rule finite_suffixed_used)
    ultimately show ?thesis using True by simp
  next
    case False
    then have "?A = ?B" by (auto simp: le_Suc_eq) (metis le_neq_implies_less Suc_leI)
    with False show ?thesis by simp
  qed
  with used show "((usedNames, baseName, suffixed baseName counter, Suc counter),
         (usedNames, baseName, finalToolName, counter))
        \<in> measure (\<lambda>(usedNames, baseName, finalToolName, counter).
          card {k. counter \<le> k \<and> suffixed baseName k \<in> set usedNames} +
          (if finalToolName \<in> set usedNames then 1 else 0))"
    by simp
qed

declare resolveName.simps [simp del]

text \<open>
  The inner loop over the HTTP methods of one path item and the outer loop over the
  paths, with \<open>tools\<close> and \<open>usedNames\<close> as state. Two things the function imports are
  parameters: the list \<open>Object.values(OpenAPIV3.HttpMethods)\<close> and the function
  \<open>generateOperationId\<close>.
\<close>

fun extractMethods ::
  "(string \<Rightarrow> string \<Rightarrow> string) \<Rightarrow> string \<Rightarrow> PathItemObject \<Rightarrow> string list \<Rightarrow>
   McpToolDefinition list \<times> string list \<Rightarrow> error + (McpToolDefinition list \<times> string list)"
where
  "extractMethods generateOperationId path pathItem [] st = Inr st"
| "extractMethods generateOperationId path pathItem (method # rest) (tools, usedNames) =
    (case map_of pathItem method of
       None \<Rightarrow> extractMethods generateOperationId path pathItem rest (tools, usedNames)
     | Some operation \<Rightarrow>
        (let baseName = or_else (op_operationId operation) (generateOperationId method path) in
         if baseName = [] then extractMethods generateOperationId path pathItem rest (tools, usedNames)
         else
           let finalToolName = resolveName usedNames baseName baseName 1;
               description = or_else (op_description operation)
                               (or_else (op_summary operation)
                                  (''Executes '' @ toUpperCase method @ '' '' @ path))
           in case generateInputSchema operation of
                Inl e \<Rightarrow> Inl e
              | Inr (inputSchema, parameters, requestBody) \<Rightarrow>
                  extractMethods generateOperationId path pathItem rest
                    (tools @ [\<lparr>t_name = finalToolName, t_description = description,
                                t_inputSchema = inputSchema, t_operationId = baseName,
                                t_method = method, t_path = path,
                                t_parameters = parameters, t_requestBody = requestBody\<rparr>],
                     usedNames @ [finalToolName])))"

fun extractPaths ::
  "(string \<Rightarrow> string \<Rightarrow> string) \<Rightarrow> string list \<Rightarrow> (string \<times> PathItemObject option) list \<Rightarrow>
   McpToolDefinition list \<times> string list \<Rightarrow> error + (McpToolDefinition list \<times> string list)"
where
  "extractPaths generateOperationId HttpMethods [] st = Inr st"
| "extractPaths generateOperationId HttpMethods ((path, pathItem) # rest) st =
    (case pathItem of
       None \<Rightarrow> extractPaths generateOperationId HttpMethods rest st
     | Some item \<Rightarrow>
        (case extractMethods generateOperationId path item HttpMethods st of
           Inl e \<Rightarrow> Inl e
         | Inr st' \<Rightarrow> extractPaths generateOperationId HttpMethods rest st'))"

definition extractToolsFromApi ::
  "string list \<Rightarrow> (string \<Rightarrow> string \<Rightarrow> string) \<Rightarrow> Document \<Rightarrow> error + McpToolDefinition list"
where
  "extractToolsFromApi HttpMethods generateOperationId api =
    (case doc_paths api of
       None \<Rightarrow> Inr []
     | Some ps \<Rightarrow>
        (case extractPaths generateOperationId HttpMethods ps ([], []) of
           Inl e \<Rightarrow> Inl e
         | Inr (tools, usedNames) \<Rightarrow> Inr tools))"

section \<open>Base URL: \<open>determineBaseUrl\<close>\<close>

text \<open>
  The command-line override is optional, and an empty override is falsy. A server's
  \<open>url\<close> is a string; with exactly one server its \<open>url\<close> has to be truthy.
\<close>

definition determineBaseUrl :: "Document \<Rightarrow> string option \<Rightarrow> string option" where
  "determineBaseUrl api cmdLineBaseUrl =
    (if truthy_str cmdLineBaseUrl then map_option replace_trailing_slash cmdLineBaseUrl
     else case doc_servers api of
       None \<Rightarrow> None
     | Some ss \<Rightarrow>
         if length ss = 1 \<and> srv_url (hd ss) \<noteq> [] then Some (replace_trailing_slash (srv_url (hd ss)))
         else if length ss > 1 then Some (replace_trailing_slash (srv_url (hd ss)))
         else None)"

section \<open>Error formatting: \<open>formatApiError\<close>\<close>

text \<open>
  The parts of an Axios response and an Axios error the generated server reads. The
  \<open>request\<close> field of an error is only tested for presence.
\<close>

record AxiosResponse =
  resp_status :: nat
  resp_statusText :: string
  resp_content_type :: "string option"
  resp_data :: jsval

record AxiosError =
  err_response :: "AxiosResponse option"
  err_request :: bool
  err_code :: "string option"
  err_message :: string

definition MAX_LEN :: nat where
  "MAX_LEN = 200"

text \<open>\<open>s.substring(0, MAX_LEN)\<close> followed by the marker when \<open>s.length > MAX_LEN\<close>.\<close>

definition truncated :: "string \<Rightarrow> string" where
  "truncated s = take MAX_LEN s @ (if length s > MAX_LEN then ''...'' else [])"

text \<open>
  \<open>JSON.stringify\<close> is a parameter: it gives the text of a value, or \<open>None\<close> when the
  \<open>try\<close> block fails.
\<close>

definition formatApiError :: "(jsval \<Rightarrow> string option) \<Rightarrow> AxiosError \<Rightarrow> string" where
  "formatApiError stringify err =
    (case err_response err of
       Some resp \<Rightarrow>
         ''API Error: Status '' @ string_of_nat (resp_status resp) @ '' ('' @
           (if resp_statusText resp \<noteq> [] then resp_statusText resp else ''Status text not available'') @
           ''). '' @
         (case resp_data resp of
            JStr responseData \<Rightarrow> ''Response: '' @ truncated responseData
          | responseData \<Rightarrow>
              if truthy responseData then
                (case stringify responseData of
                   Some jsonString \<Rightarrow> ''Response: '' @ truncated jsonString
                 | None \<Rightarrow> ''Response: [Could not serialize response data]'')
              else ''No response body received.'')
     | None \<Rightarrow>
         if err_request err then
           ''API Network Error: No response received from the server. Check network connectivity or server availability.'' @
           (case err_code err of Some c \<Rightarrow> if c \<noteq> [] then '' (Code: '' @ c @ '')'' else [] | None \<Rightarrow> [])
         else ''API Request Setup Error: '' @ err_message err)"

section \<open>The generated call handler: \<open>generateCallTool\<close>\<close>

text \<open>
  \<open>generateCallTool\<close> emits, for each tool, one branch of the server's call handler.
  The model is the behaviour of that emitted branch. What the server imports is a
  parameter, gathered in the record \<open>Host\<close>: the converter \<open>jsonSchemaToZod\<close>,
  \<open>eval\<close> (which gives a validator, or fails), \<open>encodeURIComponent\<close>, the two uses of
  \<open>JSON.stringify\<close>, and \<open>axios\<close>. A validator is modelled by its \<open>parse\<close> method.
  Parameter names are taken to be identifiers, so that the emitted text parses, that
  name no member of \<open>Object.prototype\<close> (such as \<open>toString\<close> or \<open>__proto__\<close>):
  reading an argument that was not passed gives \<open>undefined\<close>, and an assignment to
  \<open>queryParams\<close> or \<open>headers\<close> creates or overwrites a property. The validated
  arguments are an object.
\<close>

record ZodIssue =
  zi_path :: "string list"
  zi_code :: string
  zi_message :: string

datatype parse_result =
    Parsed "(string \<times> jsval) list"
  | ZodError "ZodIssue list"
  | Thrown

type_synonym ZodSchema = "jsval \<Rightarrow> parse_result"

record AxiosRequestConfig =
  cfg_method :: string
  cfg_url :: string
  cfg_params :: "(string \<times> jsval) list"
  cfg_headers :: "(string \<times> string) list"
  cfg_data :: "jsval option"

datatype AxiosOutcome =
    Resolved AxiosResponse
  | RejectedAxios AxiosError
  | RejectedError string
  | RejectedOther jsval

record Host =
  h_jsonSchemaToZod :: "jsval \<Rightarrow> string option"
  h_eval :: "string \<Rightarrow> ZodSchema option"
  h_encodeURIComponent :: "string \<Rightarrow> string"
  h_stringify :: "jsval \<Rightarrow> string option"
  h_stringify_pretty :: "jsval \<Rightarrow> string option"
  h_axios :: "AxiosRequestConfig \<Rightarrow> AxiosOutcome"

text \<open>
  The result of a call: the text of its one content item, the \<open>return\<close> statement
  that produced it, and the HTTP requests that were executed on the way.
\<close>

datatype result_kind =
    UnknownTool
  | InvalidArguments
  | ValidationSetupError
  | ExecutionError
  | ApiResponse

record CallToolResult =
  r_kind :: result_kind
  r_requests :: "AxiosRequestConfig list"
  r_text :: string

subsection \<open>Validation\<close>

definition zod_type_name :: "jsval \<Rightarrow> string" where
  "zod_type_name v =
     (case v of JUndefined \<Rightarrow> ''undefined'' | JNull \<Rightarrow> ''null'' | JBool b \<Rightarrow> ''boolean''
      | JNum i \<Rightarrow> ''number'' | JStr s \<Rightarrow> ''string'' | JArr xs \<Rightarrow> ''array'' | JObj kvs \<Rightarrow> ''object'')"

text \<open>
  \<open>z.object({}).passthrough()\<close>, the schema the source calls ``allowing any object'':
  an object is accepted with all its keys, any other value is rejected.
\<close>

definition passthrough_object :: ZodSchema where
  "passthrough_object v =
     (case v of
        JObj kvs \<Rightarrow> Parsed kvs
      | _ \<Rightarrow> ZodError [\<lparr>zi_path = [], zi_code = ''invalid_type'',
                         zi_message = ''Expected object, received '' @ zod_type_name v\<rparr>])"

definition getZodSchemaFromJsonSchema :: "Host \<Rightarrow> jsval \<Rightarrow> ZodSchema" where
  "getZodSchemaFromJsonSchema host jsonSchema =
    (if \<not> is_object jsonSchema then passthrough_object
     else case h_jsonSchemaToZod host jsonSchema of
       None \<Rightarrow> passthrough_object
     | Some zodSchemaString \<Rightarrow>
         (case h_eval host zodSchemaString of
            None \<Rightarrow> passthrough_object
          | Some zodSchema \<Rightarrow> zodSchema))"

definition validateArgs :: "Host \<Rightarrow> McpToolDefinition \<Rightarrow> jsval \<Rightarrow> parse_result" where
  "validateArgs host toolDefinition toolArgs =
    (let zodSchema = getZodSchemaFromJsonSchema host (t_inputSchema toolDefinition);
         argsToParse = (if is_object toolArgs then toolArgs else JObj [])
     in zodSchema argsToParse)"

subsection \<open>Request assembly\<close>

fun substitutePathParams ::
  "(string \<Rightarrow> string) \<Rightarrow> ParameterObject list \<Rightarrow> (string \<times> jsval) list \<Rightarrow> string \<Rightarrow> string"
where
  "substitutePathParams enc [] validatedArgs urlPath = urlPath"
| "substitutePathParams enc (p # ps) validatedArgs urlPath =
     substitutePathParams enc ps validatedArgs
       (if present (jsget validatedArgs (p_name p))
        then replace_first (''{'' @ p_name p @ ''}'')
               (enc (String_js (jsget validatedArgs (p_name p)))) urlPath
        else urlPath)"

fun collectQueryParams ::
  "ParameterObject list \<Rightarrow> (string \<times> jsval) list \<Rightarrow> (string \<times> jsval) list \<Rightarrow> (string \<times> jsval) list"
where
  "collectQueryParams [] validatedArgs queryParams = queryParams"
| "collectQueryParams (p # ps) validatedArgs queryParams =
     collectQueryParams ps validatedArgs
       (if present (jsget validatedArgs (p_name p))
        then AList.update (p_name p) (jsget validatedArgs (p_name p)) queryParams
        else queryParams)"

fun collectHeaders ::
  "ParameterObject list \<Rightarrow> (string \<times> jsval) list \<Rightarrow> (string \<times> string) list \<Rightarrow> (string \<times> string) list"
where
  "collectHeaders [] validatedArgs headers = headers"
| "collectHeaders (p # ps) validatedArgs headers =
     collectHeaders ps validatedArgs
       (if present (jsget validatedArgs (p_name p))
        then AList.update (toLowerCase (p_name p)) (String_js (jsget validatedArgs (p_name p))) headers
        else headers)"

definition requestContentType :: "RequestBodyObject \<Rightarrow> string" where
  "requestContentType requestBody =
     (case map_of (rb_content requestBody) ''application/json'' of
        Some media \<Rightarrow> ''application/json''
      | None \<Rightarrow>
          (case rb_content requestBody of
             [] \<Rightarrow> ''application/json''
           | (firstType, media) # others \<Rightarrow>
               if firstType \<noteq> [] then firstType else ''application/json''))"

text \<open>The path with its parameters substituted.\<close>

definition buildUrlPath :: "Host \<Rightarrow> McpToolDefinition \<Rightarrow> (string \<times> jsval) list \<Rightarrow> string" where
  "buildUrlPath host tool validatedArgs =
     substitutePathParams (h_encodeURIComponent host)
       (filter (\<lambda>p. p_in p = ''path'') (t_parameters tool)) validatedArgs (t_path tool)"

definition buildConfig ::
  "string option \<Rightarrow> McpToolDefinition \<Rightarrow> (string \<times> jsval) list \<Rightarrow> string \<Rightarrow> AxiosRequestConfig"
where
  "buildConfig baseUrl tool validatedArgs urlPath =
    (let headers = collectHeaders (filter (\<lambda>p. p_in p = ''header'') (t_parameters tool)) validatedArgs
                     [(''Accept'', ''application/json'')];
         headers = (case t_requestBody tool of
                      None \<Rightarrow> headers
                    | Some requestBody \<Rightarrow>
                        if jsget validatedArgs ''requestBody'' \<noteq> JUndefined
                        then AList.update ''content-type'' (requestContentType requestBody) headers
                        else headers)
     in \<lparr>cfg_method = toUpperCase (t_method tool),
         cfg_url = or_else baseUrl [] @ urlPath,
         cfg_params = collectQueryParams (filter (\<lambda>p. p_in p = ''query'') (t_parameters tool))
                        validatedArgs [],
         cfg_headers = headers,
         cfg_data = (case t_requestBody tool of
                       None \<Rightarrow> None
                     | Some requestBody \<Rightarrow> Some (jsget validatedArgs ''requestBody''))\<rparr>)"

subsection \<open>Response processing\<close>

definition responseText :: "Host \<Rightarrow> AxiosResponse \<Rightarrow> string" where
  "responseText host response =
    (let contentType = (case resp_content_type response of None \<Rightarrow> [] | Some c \<Rightarrow> toLowerCase c)
     in if str_includes contentType ''application/json'' \<and> is_object (resp_data response) then
          (case h_stringify_pretty host (resp_data response) of
             Some txt \<Rightarrow> txt
           | None \<Rightarrow> ''[Error: Failed to stringify JSON response]'')
        else case resp_data response of
          JStr s \<Rightarrow> s
        | JUndefined \<Rightarrow> ''(Status: '' @ string_of_nat (resp_status response) @ '' - No body content)''
        | JNull \<Rightarrow> ''(Status: '' @ string_of_nat (resp_status response) @ '' - No body content)''
        | d \<Rightarrow> String_js d)"

subsection \<open>The handler\<close>

definition dispatch_error :: "string \<Rightarrow> string" where
  "dispatch_error urlPath =
     ''Validation passed but failed to resolve path parameters in URL: '' @ urlPath @
     ''. Check schema/validation logic.''"

text \<open>
  The part of the branch after validation. The \<open>throw\<close> on an unresolved placeholder
  is caught by the branch's own \<open>catch\<close>, which returns the error's message; the call
  to \<open>axios\<close> comes after it.
\<close>

definition executeTool ::
  "Host \<Rightarrow> string option \<Rightarrow> McpToolDefinition \<Rightarrow> (string \<times> jsval) list \<Rightarrow> CallToolResult"
where
  "executeTool host baseUrl tool validatedArgs =
    (let urlPath = buildUrlPath host tool validatedArgs in
     if CHR ''{'' \<in> set urlPath then
       \<lparr>r_kind = ExecutionError, r_requests = [], r_text = dispatch_error urlPath\<rparr>
     else
       let config = buildConfig baseUrl tool validatedArgs urlPath in
       case h_axios host config of
         Resolved response \<Rightarrow>
           \<lparr>r_kind = ApiResponse, r_requests = [config],
            r_text = ''API Response (Status: '' @ string_of_nat (resp_status response) @ ''):'' @
                     [CHR 0x0A] @ responseText host response\<rparr>
       | RejectedAxios err \<Rightarrow>
           \<lparr>r_kind = ExecutionError, r_requests = [config],
            r_text = formatApiError (h_stringify host) err\<rparr>
       | RejectedError msg \<Rightarrow>
           \<lparr>r_kind = ExecutionError, r_requests = [config], r_text = msg\<rparr>
       | RejectedOther v \<Rightarrow>
           \<lparr>r_kind = ExecutionError, r_requests = [config],
            r_text = ''An unexpected error occurred: '' @ String_js v\<rparr>)"

definition validation_message :: "string \<Rightarrow> ZodIssue list \<Rightarrow> string" where
  "validation_message toolName issues =
     ''Invalid arguments for tool '' @ [CHR 0x27] @ toolName @ [CHR 0x27] @ '': '' @
     join_with '', ''
       (map (\<lambda>e. join_with ''.'' (zi_path e) @ '' ('' @ zi_code e @ ''): '' @ zi_message e) issues)"

definition callTool ::
  "Host \<Rightarrow> string option \<Rightarrow> McpToolDefinition \<Rightarrow> string \<Rightarrow> jsval \<Rightarrow> CallToolResult"
where
  "callTool host baseUrl tool toolName toolArgs =
    (case validateArgs host tool toolArgs of
       Parsed validatedArgs \<Rightarrow> executeTool host baseUrl tool validatedArgs
     | ZodError issues \<Rightarrow>
         \<lparr>r_kind = InvalidArguments, r_requests = [], r_text = validation_message toolName issues\<rparr>
     | Thrown \<Rightarrow>
         \<lparr>r_kind = ValidationSetupError, r_requests = [],
          r_text = ''Internal server error during argument validation setup for tool '' @
                   [CHR 0x27] @ toolName @ [CHR 0x27] @ ''.''\<rparr>)"

text \<open>
  The whole handler: the tool is looked up by name in the list, and the first tool of
  that name is also the one whose branch runs.
\<close>

definition handleCallTool ::
  "Host \<Rightarrow> string option \<Rightarrow> McpToolDefinition list \<Rightarrow> string \<Rightarrow> jsval \<Rightarrow> CallToolResult"
where
  "handleCallTool host baseUrl tools toolName toolArgs =
    (case find (\<lambda>t. t_name t = toolName) tools of
       None \<Rightarrow> \<lparr>r_kind = UnknownTool, r_requests = [],
                 r_text = ''Error: Unknown tool requested: '' @ toolName\<rparr>
     | Some toolDefinition \<Rightarrow> callTool host baseUrl toolDefinition toolName toolArgs)"

section \<open>Notions used in the statements\<close>

text \<open>
  A translated schema is stripped when it has none of the presentation fields and the
  same holds, recursively, for the property schemas of a schema of type \<open>"object"\<close>
  and for the item schema of a schema of type \<open>"array"\<close>.
\<close>

function stripped :: "jsval \<Rightarrow> bool" where
  "stripped (JObj kvs) =
    ((\<forall>f \<in> set presentation_fields. \<not> has_key f kvs) \<and>
     (jsget kvs ''type'' = JStr ''object'' \<and> truthy (jsget kvs ''properties'') \<longrightarrow>
        (\<forall>kv \<in> set (own_entries (jsget kvs ''properties'')).
            is_object (snd kv) \<longrightarrow> stripped (snd kv))) \<and>
     (jsget kvs ''type'' = JStr ''array'' \<and> is_object (jsget kvs ''items'') \<longrightarrow>
        stripped (jsget kvs ''items'')))"
| "stripped JUndefined = True"
| "stripped JNull = True"
| "stripped (JBool b) = True"
| "stripped (JNum i) = True"
| "stripped (JStr s) = True"
| "stripped (JArr xs) = True"
  by pat_completeness auto
termination
proof (relation "measure nodes")
  show "wf (measure nodes)" by simp
next
  fix kvs :: "(string \<times> jsval) list" and kv
  assume "kv \<in> set (own_entries (jsget kvs ''properties''))"
  then have "nodes (snd kv) \<le> (\<Sum>kv\<leftarrow>own_entries (jsget kvs ''properties''). nodes (snd kv))"
    by (rule nodes_member_le)
  also have "\<dots> \<le> nodes (jsget kvs ''properties'')" by (rule nodes_own_entries_le)
  also have "\<dots> \<le> (\<Sum>kv\<leftarrow>kvs. nodes (snd kv))" by (rule nodes_jsget_le)
  finally show "(snd kv, JObj kvs) \<in> measure nodes" by simp
next
  fix kvs :: "(string \<times> jsval) list"
  have "nodes (jsget kvs ''items'') \<le> (\<Sum>kv\<leftarrow>kvs. nodes (snd kv))" by (rule nodes_jsget_le)
  then show "(jsget kvs ''items'', JObj kvs) \<in> measure nodes" by simp
qed

declare stripped.simps(1) [simp del]

text \<open>The type names a \<open>type\<close> value lists: one for a string, the elements of an array.\<close>

fun type_names :: "jsval \<Rightarrow> jsval set" where
  "type_names (JStr t) = {JStr t}"
| "type_names (JArr ts) = set ts"
| "type_names v = {}"

text \<open>
  The kinds of value that the \<open>type\<close> keyword of JSON Schema (draft 7, the schema
  language of the result type \<open>JSONSchema7\<close>) tells apart. A number is an integer or
  has a fractional part.
\<close>

datatype json_kind =
    NullValue
  | BooleanValue
  | IntegerValue
  | FractionalValue
  | StringValue
  | ArrayValue
  | ObjectValue

text \<open>
  The kinds a type name admits: \<open>"number"\<close> admits every number, \<open>"integer"\<close> only
  the integers.
\<close>

fun name_admits :: "string \<Rightarrow> json_kind \<Rightarrow> bool" where
  "name_admits n NullValue = (n = ''null'')"
| "name_admits n BooleanValue = (n = ''boolean'')"
| "name_admits n IntegerValue = (n = ''integer'' \<or> n = ''number'')"
| "name_admits n FractionalValue = (n = ''number'')"
| "name_admits n StringValue = (n = ''string'')"
| "name_admits n ArrayValue = (n = ''array'')"
| "name_admits n ObjectValue = (n = ''object'')"

text \<open>
  The kinds a \<open>type\<close> value admits: those of a name, or those of any name in a list.
  A schema without \<open>type\<close> leaves the kind open.
\<close>

fun type_admits :: "jsval \<Rightarrow> json_kind \<Rightarrow> bool" where
  "type_admits (JStr n) k = name_admits n k"
| "type_admits (JArr ts) k = list_ex (\<lambda>t. case t of JStr n \<Rightarrow> name_admits n k | _ \<Rightarrow> False) ts"
| "type_admits v k = True"

text \<open>The tree a store value stands for, read down to a given depth.\<close>

fun h_read :: "nat \<Rightarrow> heap \<Rightarrow> hval \<Rightarrow> jsval" where
  "h_read n h HUndefined = JUndefined"
| "h_read n h HNull = JNull"
| "h_read n h (HBool b) = JBool b"
| "h_read n h (HNum i) = JNum i"
| "h_read n h (HStr s) = JStr s"
| "h_read 0 h (HRef a) = JUndefined"
| "h_read (Suc n) h (HRef a) =
     (if a < length h
      then (case h ! a of
              HObject kvs \<Rightarrow> JObj (map (\<lambda>kv. (fst kv, h_read n h (snd kv))) kvs)
            | HArray xs \<Rightarrow> JArr (map (h_read n h) xs))
      else JUndefined)"

text \<open>The names in the required list of a schema, and the keys of its properties.\<close>

definition required_names :: "jsval \<Rightarrow> string list" where
  "required_names schema =
     (case jsget (own_entries schema) ''required'' of
        JArr xs \<Rightarrow> concat (map (\<lambda>x. case x of JStr n \<Rightarrow> [n] | _ \<Rightarrow> []) xs)
      | _ \<Rightarrow> [])"

definition property_names :: "jsval \<Rightarrow> string list" where
  "property_names schema = map fst (own_entries (jsget (own_entries schema) ''properties''))"

text \<open>
  The name an operation receives, given the names already taken: a free name, which
  is the base name itself or, when that is taken, the base name with the first suffix
  \<open>_1\<close>, \<open>_2\<close>, \<dots> that is free.
\<close>

definition name_resolved :: "string list \<Rightarrow> string \<Rightarrow> string \<Rightarrow> bool" where
  "name_resolved used baseName final =
     (final \<notin> set used \<and>
      (final = baseName \<or>
       (baseName \<in> set used \<and>
        (\<exists>k\<ge>1. final = suffixed baseName k \<and>
                (\<forall>j. 1 \<le> j \<and> j < k \<longrightarrow> suffixed baseName j \<in> set used)))))"

text \<open>The operations of a document that derive a name, in document order.\<close>

definition item_operations ::
  "(string \<Rightarrow> string \<Rightarrow> string) \<Rightarrow> string \<Rightarrow> PathItemObject \<Rightarrow> string list \<Rightarrow>
   (string \<times> string \<times> string) list"
where
  "item_operations generateOperationId path pathItem methods =
     concat (map (\<lambda>method.
        case map_of pathItem method of
          None \<Rightarrow> []
        | Some operation \<Rightarrow>
            (let baseName = or_else (op_operationId operation) (generateOperationId method path)
             in if baseName = [] then [] else [(path, method, baseName)])) methods)"

definition derived_operations ::
  "string list \<Rightarrow> (string \<Rightarrow> string \<Rightarrow> string) \<Rightarrow> Document \<Rightarrow> (string \<times> string \<times> string) list"
where
  "derived_operations HttpMethods generateOperationId api =
     concat (map (\<lambda>(path, pathItem).
        case pathItem of
          None \<Rightarrow> []
        | Some item \<Rightarrow> item_operations generateOperationId path item HttpMethods)
      (case doc_paths api of None \<Rightarrow> [] | Some ps \<Rightarrow> ps))"

text \<open>The operation a tool stands for: its path, method and base name.\<close>

definition tool_key :: "McpToolDefinition \<Rightarrow> string \<times> string \<times> string" where
  "tool_key t = (t_path t, t_method t, t_operationId t)"

text \<open>What holds of \<open>tools\<close> and \<open>usedNames\<close> between iterations.\<close>

definition names_invariant :: "McpToolDefinition list \<times> string list \<Rightarrow> bool" where
  "names_invariant st =
     (case st of (tools, usedNames) \<Rightarrow>
        usedNames = map t_name tools \<and> distinct usedNames \<and>
        (\<forall>i<length tools.
           name_resolved (map t_name (take i tools)) (t_operationId (tools ! i)) (t_name (tools ! i))))"

text \<open>Removing one trailing slash, said directly.\<close>

definition without_trailing_slash :: "string \<Rightarrow> string" where
  "without_trailing_slash s = (if s \<noteq> [] \<and> last s = CHR ''/'' then butlast s else s)"



text \<open>
  Typed as the OpenAPI declarations have it, every schema of an operation is an
  object; then the assembler and the extraction return.
\<close>

definition schemas_are_objects :: "OperationObject \<Rightarrow> bool" where
  "schemas_are_objects operation =
     ((\<forall>p\<in>set (op_parameters operation). truthy (p_schema p) \<longrightarrow> is_object (p_schema p)) \<and>
      (\<forall>body\<in>set_option (op_requestBody operation).
         \<forall>schema\<in>set_option (json_schema_of body). is_object schema))"

section \<open>Example documents\<close>

text \<open>
  Two documents with a cycle. In the first, the schema at address 0 has a property
  \<open>self\<close> that is the schema itself. In the second, the schema at address 0 has a
  property \<open>b\<close>, the schema at address 2, whose property \<open>a\<close> is the schema at
  address 0 again.
\<close>

definition self_cycle :: heap where
  "self_cycle =
     [HObject [(''type'', HStr ''object''), (''properties'', HRef 1)],
      HObject [(''self'', HRef 0)]]"

definition mutual_cycle :: heap where
  "mutual_cycle =
     [HObject [(''type'', HStr ''object''), (''properties'', HRef 1)],
      HObject [(''b'', HRef 2)],
      HObject [(''type'', HStr ''object''), (''properties'', HRef 3)],
      HObject [(''a'', HRef 0)]]"

definition pet_document :: heap where
  "pet_document =
     [HObject [(''type'', HStr ''object''), (''nullable'', HBool True), (''properties'', HRef 1)],
      HObject [(''id'', HRef 2), (''tags'', HRef 3), (''owner'', HRef 5)],
      HObject [(''type'', HStr ''integer''), (''readOnly'', HBool True)],
      HObject [(''type'', HStr ''array''), (''items'', HRef 4)],
      HObject [(''type'', HStr ''string''), (''nullable'', HBool True), (''example'', HStr ''x'')],
      HObject [(''$ref'', HStr ''#/components/schemas/Owner'')]]"

text \<open>
  An operation with a required query parameter, an optional one, and a required JSON
  request body.
\<close>

definition example_operation :: OperationObject where
  "example_operation =
     \<lparr>op_operationId = Some ''createPet'', op_summary = None, op_description = None,
      op_parameters =
        [\<lparr>p_name = ''limit'', p_in = ''query'', p_description = Some ''Page size'',
          p_required = True, p_schema = JObj [(''type'', JStr ''integer'')]\<rparr>,
         \<lparr>p_name = ''tag'', p_in = ''query'', p_description = None,
          p_required = False, p_schema = JObj [(''type'', JStr ''string'')]\<rparr>],
      op_requestBody =
        Some \<lparr>rb_description = None,
              rb_content = [(''application/json'', \<lparr>mt_schema = JObj [(''type'', JStr ''object'')]\<rparr>)],
              rb_required = True\<rparr>\<rparr>"

text \<open>An operation with one required query parameter, whose name is \<open>__proto__\<close>.\<close>

definition proto_operation :: OperationObject where
  "proto_operation =
     \<lparr>op_operationId = Some ''listItems'', op_summary = None, op_description = None,
      op_parameters =
        [\<lparr>p_name = ''__proto__'', p_in = ''query'', p_description = None,
          p_required = True, p_schema = JObj [(''type'', JStr ''string'')]\<rparr>],
      op_requestBody = None\<rparr>"

text \<open>
  The values of the enumeration \<open>OpenAPIV3.HttpMethods\<close>, and a document in which
  three operations derive the base name \<open>pets\<close>: two declare it, and for the third
  a stand-in for \<open>generateOperationId\<close> yields it.
\<close>

definition HttpMethods_values :: "string list" where
  "HttpMethods_values =
     [''get'', ''put'', ''post'', ''delete'', ''options'', ''head'', ''patch'', ''trace'']"

definition example_api :: Document where
  "example_api =
     \<lparr>doc_servers = None,
      doc_paths = Some
        [(''/pets'', Some
           [(''post'', \<lparr>op_operationId = Some ''pets'', op_summary = None, op_description = None,
                         op_parameters = [], op_requestBody = None\<rparr>),
            (''get'', \<lparr>op_operationId = Some ''pets'', op_summary = Some ''List pets'',
                        op_description = None, op_parameters = [], op_requestBody = None\<rparr>)]),
         (''/pets/{id}'', Some
           [(''get'', \<lparr>op_operationId = None, op_summary = None, op_description = None,
                        op_parameters = [], op_requestBody = None\<rparr>)])]\<rparr>"

text \<open>
  A tool for \<open>GET /users/{id}\<close> with one required path parameter. In the example
  host the schema conversion fails, \<open>encodeURIComponent\<close> leaves its argument as it
  is, and every request is answered with status 200 and an empty JSON object.
\<close>

definition users_tool :: McpToolDefinition where
  "users_tool =
     \<lparr>t_name = ''getUsersById'', t_description = ''Executes GET /users/{id}'',
      t_inputSchema =
        JObj [(''type'', JStr ''object''),
              (''properties'', JObj [(''id'', JObj [(''type'', JStr ''string'')])]),
              (''required'', JArr [JStr ''id''])],
      t_operationId = ''getUsersById'', t_method = ''get'', t_path = ''/users/{id}'',
      t_parameters =
        [\<lparr>p_name = ''id'', p_in = ''path'', p_description = None, p_required = True,
          p_schema = JObj [(''type'', JStr ''string'')]\<rparr>],
      t_requestBody = None\<rparr>"

definition example_host :: Host where
  "example_host =
     \<lparr>h_jsonSchemaToZod = (\<lambda>schema. None),
      h_eval = (\<lambda>code. None),
      h_encodeURIComponent = (\<lambda>s. s),
      h_stringify = (\<lambda>v. None),
      h_stringify_pretty = (\<lambda>v. Some ''{}''),
      h_axios = (\<lambda>config. Resolved \<lparr>resp_status = 200, resp_statusText = ''OK'',
                                       resp_content_type = Some ''application/json'',
                                       resp_data = JObj []\<rparr>)\<rparr>"



section \<open>Supporting lemmas\<close>

subsection \<open>The translator unfolded\<close>

lemma map_schema_unfold:
  assumes "is_object schema" "\<not> has_key ''$ref'' (own_entries schema)"
  shows "mapOpenApiSchemaToJsonSchema schema =
    (let jsonSchema = schema_head schema in
     if jsget jsonSchema ''type'' = JStr ''object'' \<and> truthy (jsget jsonSchema ''properties'')
     then (case mapProperties (own_entries (jsget jsonSchema ''properties'')) [] of
             Inl e \<Rightarrow> Inl e
           | Inr mappedProps \<Rightarrow> Inr (JObj (AList.update ''properties'' (JObj mappedProps) jsonSchema)))
     else if jsget jsonSchema ''type'' = JStr ''array'' \<and> is_object (jsget jsonSchema ''items'')
     then (case mapOpenApiSchemaToJsonSchema (jsget jsonSchema ''items'') of
             Inl e \<Rightarrow> Inl e
           | Inr its \<Rightarrow> Inr (JObj (AList.update ''items'' its jsonSchema)))
     else Inr (JObj jsonSchema))"
  using assms
  by (subst mapOpenApiSchemaToJsonSchema.simps)
     (auto simp: Let_def jsget_update split: sum.splits)

lemma map_returns:
  "is_object schema \<longrightarrow> (\<exists>r. mapOpenApiSchemaToJsonSchema schema = Inr (JObj r))"
  "\<exists>mp. mapProperties ps acc = Inr mp"
proof (induction schema and ps acc rule: mapOpenApiSchemaToJsonSchema_mapProperties.induct)
  case (1 schema)
  show ?case
  proof
    assume obj: "is_object schema"
    show "\<exists>r. mapOpenApiSchemaToJsonSchema schema = Inr (JObj r)"
    proof (cases "has_key ''$ref'' (own_entries schema)")
      case True
      with obj show ?thesis
        by (simp add: mapOpenApiSchemaToJsonSchema.simps unresolved_ref_def)
    next
      case False
      define js where "js = schema_head schema"
      show ?thesis
      proof (cases "jsget js ''type'' = JStr ''object'' \<and> truthy (jsget js ''properties'')")
        case True
        with "1.IH"(1) [of js] obj False js_def
        obtain mp where "mapProperties (own_entries (jsget js ''properties'')) [] = Inr mp"
          by auto
        with True obj False show ?thesis
          by (simp add: map_schema_unfold js_def [symmetric])
      next
        case notobj: False
        show ?thesis
        proof (cases "jsget js ''type'' = JStr ''array'' \<and> is_object (jsget js ''items'')")
          case True
          with "1.IH"(2) [of js js] obj False js_def notobj
          obtain its where "mapOpenApiSchemaToJsonSchema (jsget js ''items'') = Inr (JObj its)"
            by auto
          with True notobj obj False show ?thesis
            by (simp add: map_schema_unfold js_def [symmetric])
        next
          case False
          with notobj obj \<open>\<not> has_key ''$ref'' (own_entries schema)\<close> show ?thesis
            by (auto simp: map_schema_unfold js_def [symmetric])
        qed
      qed
    qed
  qed
next
  case (2 mappedProps)
  then show ?case by (simp add: mapOpenApiSchemaToJsonSchema.simps)
next
  case (3 key propSchema rest mappedProps)
  then show ?case 
    by (auto simp: mapOpenApiSchemaToJsonSchema.simps split: sum.splits)
qed

lemma map_result_field:
  assumes "is_object schema" "\<not> has_key ''$ref'' (own_entries schema)"
    and "mapOpenApiSchemaToJsonSchema schema = Inr r"
    and "k \<noteq> ''properties''" "k \<noteq> ''items''"
  shows "jsget (own_entries r) k = jsget (schema_head schema) k"
  using assms(3-5) unfolding map_schema_unfold [OF assms(1,2)]
  by (auto simp: Let_def jsget_update split: if_splits sum.splits)

lemma schema_head_type:
  "jsget (schema_head schema) ''type'' =
    (let declared = jsget (own_entries schema) ''type'';
         coerced = (if declared = JStr ''integer'' then JStr ''number'' else declared)
     in if truthy (jsget (own_entries schema) ''nullable'') then nullable_type coerced else coerced)"
  by (simp add: schema_head_def Let_def jsget_update jsget_delete_keys presentation_fields_def)

lemma has_key_update: "has_key f (AList.update k v kvs) = (f = k \<or> has_key f kvs)"
  by (auto simp: has_key_def dom_update)

lemma has_key_delete_keys: "has_key f (delete_keys ks kvs) = (f \<notin> set ks \<and> has_key f kvs)"
  by (auto simp: has_key_def delete_keys_def)

lemma schema_head_no_presentation:
  "f \<in> set presentation_fields \<Longrightarrow> \<not> has_key f (schema_head schema)"
  by (auto simp: schema_head_def Let_def has_key_update has_key_delete_keys presentation_fields_def)

lemma set_update_cases:
  "kv \<in> set (AList.update k v al) \<Longrightarrow> kv = (k, v) \<or> kv \<in> set al"
  by (induction al) (auto split: if_splits)

lemma set_assign_cases:
  "kv \<in> set (fst (assign k v (own, proto))) \<Longrightarrow> kv = (k, v) \<or> kv \<in> set own"
  by (auto simp: assign_def dest: set_update_cases split: if_splits)

lemma stripped_unresolved_ref: "stripped (unresolved_ref schema)"
  by (simp add: unresolved_ref_def stripped.simps(1) presentation_fields_def has_key_def jsget_def)

lemma map_stripped:
  "\<forall>r. mapOpenApiSchemaToJsonSchema schema = Inr r \<longrightarrow> stripped r"
  "\<forall>mp. (\<forall>kv\<in>set acc. is_object (snd kv) \<longrightarrow> stripped (snd kv)) \<longrightarrow>
        mapProperties ps acc = Inr mp \<longrightarrow>
        (\<forall>kv\<in>set mp. is_object (snd kv) \<longrightarrow> stripped (snd kv))"
proof (induction schema and ps acc rule: mapOpenApiSchemaToJsonSchema_mapProperties.induct)
  case (1 schema)
  show ?case
  proof (intro allI impI)
    fix r assume r: "mapOpenApiSchemaToJsonSchema schema = Inr r"
    then have obj: "is_object schema"
      by (subst (asm) mapOpenApiSchemaToJsonSchema.simps) (auto split: if_splits)
    show "stripped r"
    proof (cases "has_key ''$ref'' (own_entries schema)")
      case True
      with obj r show ?thesis
        by (subst (asm) mapOpenApiSchemaToJsonSchema.simps) (auto simp: stripped_unresolved_ref)
    next
      case noref: False
      define js where "js = schema_head schema"
      have nopres: "\<forall>f \<in> set presentation_fields. \<not> has_key f js"
        by (simp add: js_def schema_head_no_presentation)
      have nopres': "''properties'' \<notin> set presentation_fields" "''items'' \<notin> set presentation_fields"
        by (simp_all add: presentation_fields_def)
      show ?thesis
      proof (cases "jsget js ''type'' = JStr ''object'' \<and> truthy (jsget js ''properties'')")
        case True
        with r obj noref obtain mp where
          mp: "mapProperties (own_entries (jsget js ''properties'')) [] = Inr mp"
          and req: "r = JObj (AList.update ''properties'' (JObj mp) js)"
          by (auto simp: map_schema_unfold js_def [symmetric] split: sum.splits)
        from "1.IH"(1) [of js] obj noref True mp
        have "\<forall>kv\<in>set mp. is_object (snd kv) \<longrightarrow> stripped (snd kv)"
          by (simp add: js_def)
        with True nopres nopres' show ?thesis
          unfolding req
          by (subst stripped.simps(1)) (auto simp: has_key_update jsget_update)
      next
        case notobj: False
        show ?thesis
        proof (cases "jsget js ''type'' = JStr ''array'' \<and> is_object (jsget js ''items'')")
          case True
          with r obj noref notobj obtain its where
            its: "mapOpenApiSchemaToJsonSchema (jsget js ''items'') = Inr its"
            and req: "r = JObj (AList.update ''items'' its js)"
            by (auto simp: map_schema_unfold js_def [symmetric] split: sum.splits)
          from "1.IH"(2) [of js js] obj noref True notobj its
          have "stripped its" by (simp add: js_def)
          with True notobj nopres nopres' show ?thesis
            unfolding req
            by (subst stripped.simps(1)) (auto simp: has_key_update jsget_update)
        next
          case False
          with r obj noref notobj have req: "r = JObj js"
            by (auto simp: map_schema_unfold js_def [symmetric] split: sum.splits)
          from False notobj nopres show ?thesis
            unfolding req by (subst stripped.simps(1)) auto
        qed
      qed
    qed
  qed
next
  case (2 mappedProps)
  then show ?case by (simp add: mapOpenApiSchemaToJsonSchema.simps)
next
  case (3 key propSchema rest mappedProps)
  show ?case
  proof (intro allI impI)
    fix mp
    assume acc: "\<forall>kv\<in>set mappedProps. is_object (snd kv) \<longrightarrow> stripped (snd kv)"
      and run: "mapProperties ((key, propSchema) # rest) mappedProps = Inr mp"
    show "\<forall>kv\<in>set mp. is_object (snd kv) \<longrightarrow> stripped (snd kv)"
    proof (cases "is_object propSchema")
      case True
      with run obtain r where r: "mapOpenApiSchemaToJsonSchema propSchema = Inr r"
        and rest: "mapProperties rest (fst (assign key r (mappedProps, ObjectPrototype))) = Inr mp"
        by (auto simp: mapProperties.simps split: sum.splits)
      from "3.IH"(1) True r have "stripped r" by simp
      with acc have "\<forall>kv\<in>set (fst (assign key r (mappedProps, ObjectPrototype))).
                       is_object (snd kv) \<longrightarrow> stripped (snd kv)"
        by (auto dest: set_assign_cases)
      with "3.IH"(2) [OF True r] rest show ?thesis by blast
    next
      case False
      show ?thesis
      proof (cases "is_bool propSchema")
        case True
        with False run
        have rest: "mapProperties rest (fst (assign key propSchema (mappedProps, ObjectPrototype))) = Inr mp"
          by (simp add: mapProperties.simps)
        from acc False
        have "\<forall>kv\<in>set (fst (assign key propSchema (mappedProps, ObjectPrototype))).
                 is_object (snd kv) \<longrightarrow> stripped (snd kv)"
          by (auto dest: set_assign_cases)
        with "3.IH"(3) [OF False True] rest show ?thesis by blast
      next
        case nb: False
        with False run have rest: "mapProperties rest mappedProps = Inr mp"
          by (simp add: mapProperties.simps)
        with "3.IH"(4) [OF False nb] acc show ?thesis by blast
      qed
    qed
  qed
qed

text \<open>
  A property schema under the key \<open>__proto__\<close> is translated and then becomes the
  prototype of \<open>mappedProps\<close>; it is not among the properties of the result.
\<close>

lemma proto_property_not_copied:
  "mapOpenApiSchemaToJsonSchema
     (JObj [(''type'', JStr ''object''),
            (''properties'', JObj [(''__proto__'', JObj [(''type'', JStr ''string'')]),
                                   (''a'', JObj [(''type'', JStr ''integer'')])])])
   = Inr (JObj [(''type'', JStr ''object''),
                (''properties'', JObj [(''a'', JObj [(''type'', JStr ''number'')])])])"
  by code_simp

subsection \<open>Recursion on a cyclic store\<close>

lemma h_schema_head_plain:
  assumes "a < length h" and "h ! a = HObject kvs"
    and "hget kvs ''type'' \<noteq> HStr ''integer''"
    and "\<not> h_truthy (hget kvs ''nullable'')"
    and "\<forall>kv\<in>set kvs. fst kv \<notin> set (''nullable'' # presentation_fields)"
  shows "h_schema_head h (HRef a) = (length h, h @ [HObject kvs])"
proof -
  from assms(5) have "filter (\<lambda>kv. fst kv \<notin> set (''nullable'' # presentation_fields)) kvs = kvs"
    by (induction kvs) auto
  with assms(1-4) show ?thesis
    by (simp add: h_schema_head_def h_delete_def Let_def)
qed

text \<open>
  One step of the recursion at an object schema whose only property is a reference:
  when the nested call overflows, so does this one.
\<close>

lemma property_overflow_step:
  assumes a: "a < length h" "h ! a = HObject [(''type'', HStr ''object''), (''properties'', HRef p)]"
    and p: "p < length h" "h ! p = HObject [(k, HRef b)]"
    and inner: "mapSchemaH toStr depth
                  (h @ [HObject [(''type'', HStr ''object''), (''properties'', HRef p)], HObject []])
                  (HRef b) = Inl RangeError"
  shows "mapSchemaH toStr (Suc depth) h (HRef a) = Inl RangeError"
proof -
  let ?root = "[(''type'', HStr ''object''), (''properties'', HRef p)]"
  let ?h1 = "h @ [HObject ?root]"
  have e0: "h_entries h (HRef a) = ?root" using a by simp
  have head: "h_schema_head h (HRef a) = (length h, ?h1)"
    using a by (intro h_schema_head_plain) (auto simp: hget_def presentation_fields_def)
  have copy: "h_entries ?h1 (HRef (length h)) = ?root" by simp
  have props: "h_entries ?h1 (HRef p) = [(k, HRef b)]"
    using p by (simp add: nth_append)
  have loop: "mapPropertiesH toStr depth (?h1 @ [HObject []]) [(k, HRef b)] (length ?h1)
                = Inl RangeError"
    using inner by simp
  have cond: "hget (h_entries ?h1 (HRef (length h))) ''type'' = HStr ''object'' \<and>
              h_truthy (hget (h_entries ?h1 (HRef (length h))) ''properties'')"
    unfolding copy by (simp add: hget_def)
  have pv: "hget (h_entries ?h1 (HRef (length h))) ''properties'' = HRef p"
    unfolding copy by (simp add: hget_def)
  have noref: "''$ref'' \<notin> fst ` set (h_entries h (HRef a))"
    unfolding e0 by simp
  show ?thesis
    unfolding mapSchemaH.simps(2) [of toStr depth h "HRef a"]
    using noref cond
    by (simp only: head prod.case h_is_object.simps not_True_eq_False if_False if_True pv props loop
          sum.case simp_thms)
qed

lemma prefix_nth:
  assumes "take (length pre) h = pre" and "i < length pre"
  shows "i < length h" and "h ! i = pre ! i"
proof -
  have "h = pre @ drop (length pre) h"
    using assms(1) by (metis append_take_drop_id)
  then obtain t where h: "h = pre @ t" ..
  show "i < length h" using assms(2) by (simp add: h)
  show "h ! i = pre ! i" using assms(2) by (simp add: h nth_append)
qed

lemma prefix_append:
  assumes "take (length pre) h = pre"
  shows "take (length pre) (h @ hs) = pre"
proof -
  have "length pre \<le> length h"
    using assms by (metis length_take min.cobounded1 min.commute)
  with assms show ?thesis by simp
qed

lemma self_cycle_overflows:
  "take (length self_cycle) h = self_cycle \<Longrightarrow> mapSchemaH toStr depth h (HRef 0) = Inl RangeError"
proof (induction depth arbitrary: h)
  case 0
  show ?case by simp
next
  case (Suc depth)
  have n0: "0 < length h" "h ! 0 = HObject [(''type'', HStr ''object''), (''properties'', HRef 1)]"
    using prefix_nth [OF Suc.prems, of 0] by (simp_all add: self_cycle_def)
  have n1: "1 < length h" "h ! 1 = HObject [(''self'', HRef 0)]"
    using prefix_nth [OF Suc.prems, of 1] by (simp_all add: self_cycle_def)
  show ?case
    by (rule property_overflow_step [OF n0 n1]) (rule Suc.IH, rule prefix_append, rule Suc.prems)
qed

lemma mutual_cycle_overflows:
  "take (length mutual_cycle) h = mutual_cycle \<Longrightarrow>
   mapSchemaH toStr depth h (HRef 0) = Inl RangeError \<and>
   mapSchemaH toStr depth h (HRef 2) = Inl RangeError"
proof (induction depth arbitrary: h)
  case 0
  show ?case by simp
next
  case (Suc depth)
  have n0: "0 < length h" "h ! 0 = HObject [(''type'', HStr ''object''), (''properties'', HRef 1)]"
    using prefix_nth [OF Suc.prems, of 0] by (simp_all add: mutual_cycle_def)
  have n1: "1 < length h" "h ! 1 = HObject [(''b'', HRef 2)]"
    using prefix_nth [OF Suc.prems, of 1] by (simp_all add: mutual_cycle_def)
  have n2: "2 < length h" "h ! 2 = HObject [(''type'', HStr ''object''), (''properties'', HRef 3)]"
    using prefix_nth [OF Suc.prems, of 2] by (simp_all add: mutual_cycle_def)
  have n3: "3 < length h" "h ! 3 = HObject [(''a'', HRef 0)]"
    using prefix_nth [OF Suc.prems, of 3] by (simp_all add: mutual_cycle_def)
  have ih: "mapSchemaH toStr depth (h @ hs) (HRef 0) = Inl RangeError \<and>
            mapSchemaH toStr depth (h @ hs) (HRef 2) = Inl RangeError" for hs
    by (rule Suc.IH, rule prefix_append, rule Suc.prems)
  show ?case
  proof
    show "mapSchemaH toStr (Suc depth) h (HRef 0) = Inl RangeError"
      by (rule property_overflow_step [OF n0 n1]) (simp add: ih)
    show "mapSchemaH toStr (Suc depth) h (HRef 2) = Inl RangeError"
      by (rule property_overflow_step [OF n2 n3]) (simp add: ih)
  qed
qed

text \<open>
  On a document without a cycle the two models agree: read back from the store, the
  result is the translation of the document read back from the store.
\<close>

lemma store_and_tree_agree:
  "map_sum id (\<lambda>r. h_read 9 (snd r) (fst r))
     (mapSchemaH (\<lambda>h v. String_js (h_read 9 h v)) 9 pet_document (HRef 3))
   = mapOpenApiSchemaToJsonSchema (h_read 9 pet_document (HRef 3))"
  "map_sum id (\<lambda>r. h_read 9 (snd r) (fst r))
     (mapSchemaH (\<lambda>h v. String_js (h_read 9 h v)) 9 pet_document (HRef 0))
   = mapOpenApiSchemaToJsonSchema (h_read 9 pet_document (HRef 0))"
  "map_sum id (\<lambda>r. h_read 9 (snd r) (fst r))
     (mapSchemaH (\<lambda>h v. String_js (h_read 9 h v)) 9
        (pet_document [0 := HObject [(''type'', HStr ''object''), (''properties'', HRef 1)]]) (HRef 0))
   = mapOpenApiSchemaToJsonSchema
       (h_read 9 (pet_document [0 := HObject [(''type'', HStr ''object''), (''properties'', HRef 1)]]) (HRef 0))"
  "map_sum id (\<lambda>r. h_read 9 (snd r) (fst r))
     (mapSchemaH (\<lambda>h v. String_js (h_read 9 h v)) 9
        (pet_document [0 := HObject [(''type'', HStr ''object''), (''properties'', HRef 1)],
                       1 := HObject [(''__proto__'', HRef 2), (''tags'', HRef 3)]]) (HRef 0))
   = mapOpenApiSchemaToJsonSchema
       (h_read 9 (pet_document [0 := HObject [(''type'', HStr ''object''), (''properties'', HRef 1)],
                                1 := HObject [(''__proto__'', HRef 2), (''tags'', HRef 3)]]) (HRef 0))"
  by code_simp+

subsection \<open>The required list\<close>

lemma has_key_assign:
  "fst ` set (fst (assign k v obj)) \<subseteq> insert k (fst ` set (fst obj)) \<and>
   fst ` set (fst obj) \<subseteq> fst ` set (fst (assign k v obj)) \<and>
   (k \<noteq> ''__proto__'' \<longrightarrow> k \<in> fst ` set (fst (assign k v obj)))"
  by (cases obj) (auto simp: assign_def dom_update)

lemma addParameters_required:
  "addParameters ps (properties, required) = Inr (properties', required') \<Longrightarrow>
   set required \<subseteq> insert ''__proto__'' (fst ` set (fst properties)) \<Longrightarrow>
   set required' \<subseteq> insert ''__proto__'' (fst ` set (fst properties'))"
proof (induction ps arbitrary: properties required)
  case Nil
  then show ?case by simp
next
  case (Cons param rest)
  show ?case
  proof (cases "p_name param = [] \<or> \<not> truthy (p_schema param)")
    case True
    with Cons.prems Cons.IH [of properties required] show ?thesis by simp
  next
    case False
    with Cons.prems(1) obtain v where
      run: "addParameters rest
           (assign (p_name param) v properties,
            if p_required param then required @ [p_name param] else required)
         = Inr (properties', required')"
      by (auto split: sum.splits)
    show ?thesis
    proof (rule Cons.IH [OF run])
      show "set (if p_required param then required @ [p_name param] else required)
            \<subseteq> insert ''__proto__'' (fst ` set (fst (assign (p_name param) v properties)))"
      proof -
        let ?keys = "fst ` set (fst (assign (p_name param) v properties))"
        from has_key_assign [of "p_name param" v properties]
        have mono: "fst ` set (fst properties) \<subseteq> ?keys"
          and new: "p_name param \<noteq> ''__proto__'' \<longrightarrow> p_name param \<in> ?keys"
          by blast+
        from Cons.prems(2) mono have "set required \<subseteq> insert ''__proto__'' ?keys" by blast
        moreover from new have "p_name param \<in> insert ''__proto__'' ?keys" by blast
        ultimately show ?thesis by simp
      qed
    qed
  qed
qed

lemma addRequestBody_required:
  "addRequestBody body (properties, required) = Inr (properties', required') \<Longrightarrow>
   set required \<subseteq> insert ''__proto__'' (fst ` set properties) \<Longrightarrow>
   set required' \<subseteq> insert ''__proto__'' (fst ` set properties')"
  by (auto simp: addRequestBody_def dom_update split: option.splits sum.splits list.splits if_splits)

lemma concat_JStr_names: "concat (map (\<lambda>x. case x of JStr n \<Rightarrow> [n] | _ \<Rightarrow> []) (map JStr ns)) = ns"
  by (induction ns) simp_all

text \<open>
  Whenever the assembler returns an input schema for an operation, that schema is of
  type \<open>"object"\<close>, and every name in its required list is a key of its properties or
  is \<open>__proto__\<close>.
\<close>

lemma required_within_properties_or_proto:
  assumes "generateInputSchema operation = Inr (schema, ps, body)"
  shows "jsget (own_entries schema) ''type'' = JStr ''object'' \<and>
         set (required_names schema) \<subseteq> insert ''__proto__'' (set (property_names schema))"
proof -
  from assms obtain p1 proto r1 properties required where
    a: "addParameters (op_parameters operation) (([], ObjectPrototype), []) = Inr ((p1, proto), r1)"
    and b: "addRequestBody (op_requestBody operation) (p1, r1) = Inr (properties, required)"
    and s: "schema = JObj ([(''type'', JStr ''object''), (''properties'', JObj properties)] @
                        (if length required > 0 then [(''required'', JArr (map JStr required))] else []))"
    by (auto simp: generateInputSchema_def split: sum.splits prod.splits)
  from addParameters_required [OF a] have "set r1 \<subseteq> insert ''__proto__'' (fst ` set p1)" by simp
  with addRequestBody_required [OF b]
  have "set required \<subseteq> insert ''__proto__'' (fst ` set properties)" .
  then show ?thesis
    unfolding s by (auto simp: required_names_def property_names_def jsget_def concat_JStr_names)
qed

lemma example_operation_schema:
  "map_sum id (\<lambda>r. (required_names (fst r), property_names (fst r)))
     (generateInputSchema example_operation)
   = Inr ([''limit'', ''requestBody''], [''limit'', ''tag'', ''requestBody''])"
  by code_simp

subsection \<open>Names\<close>

lemma resolveName_invariant:
  assumes "(counter = 1 \<and> finalToolName = baseName) \<or>
           (2 \<le> counter \<and> finalToolName = suffixed baseName (counter - 1) \<and> baseName \<in> set usedNames \<and>
            (\<forall>j. 1 \<le> j \<and> j < counter - 1 \<longrightarrow> suffixed baseName j \<in> set usedNames))"
  shows "name_resolved usedNames baseName (resolveName usedNames baseName finalToolName counter)"
  using assms
proof (induction usedNames baseName finalToolName counter rule: resolveName.induct)
  case (1 usedNames baseName finalToolName counter)
  show ?case
  proof (cases "finalToolName \<in> set usedNames")
    case False
    then have stop: "resolveName usedNames baseName finalToolName counter = finalToolName"
      by (subst resolveName.simps) simp
    from "1.prems" show ?thesis
    proof
      assume "counter = 1 \<and> finalToolName = baseName"
      with False show ?thesis
        unfolding stop by (simp add: name_resolved_def)
    next
      assume a: "2 \<le> counter \<and> finalToolName = suffixed baseName (counter - 1) \<and> baseName \<in> set usedNames \<and>
            (\<forall>j. 1 \<le> j \<and> j < counter - 1 \<longrightarrow> suffixed baseName j \<in> set usedNames)"
      then have "\<exists>k\<ge>1. finalToolName = suffixed baseName k \<and>
                (\<forall>j. 1 \<le> j \<and> j < k \<longrightarrow> suffixed baseName j \<in> set usedNames)"
        by (intro exI [of _ "counter - 1"]) auto
      with False a show ?thesis
        unfolding stop by (simp add: name_resolved_def)
    qed
  next
    case True
    have next_inv: "(Suc counter = 1 \<and> suffixed baseName counter = baseName) \<or>
          (2 \<le> Suc counter \<and> suffixed baseName counter = suffixed baseName (Suc counter - 1) \<and>
           baseName \<in> set usedNames \<and>
           (\<forall>j. 1 \<le> j \<and> j < Suc counter - 1 \<longrightarrow> suffixed baseName j \<in> set usedNames))"
      using "1.prems"
    proof
      assume "counter = 1 \<and> finalToolName = baseName"
      with True show ?thesis by auto
    next
      assume a: "2 \<le> counter \<and> finalToolName = suffixed baseName (counter - 1) \<and> baseName \<in> set usedNames \<and>
            (\<forall>j. 1 \<le> j \<and> j < counter - 1 \<longrightarrow> suffixed baseName j \<in> set usedNames)"
      have "suffixed baseName j \<in> set usedNames" if "1 \<le> j" "j < counter" for j
      proof (cases "j = counter - 1")
        case True
        with a \<open>finalToolName \<in> set usedNames\<close> show ?thesis by simp
      next
        case False
        with that a show ?thesis by simp
      qed
      with a show ?thesis by auto
    qed
    have "resolveName usedNames baseName finalToolName counter
          = resolveName usedNames baseName (suffixed baseName counter) (Suc counter)"
      using True by (subst resolveName.simps) simp
    with "1.IH" [OF True next_inv] show ?thesis by simp
  qed
qed

lemma resolveName_resolved:
  "name_resolved usedNames baseName (resolveName usedNames baseName baseName 1)"
  by (rule resolveName_invariant) simp

lemma names_invariant_step:
  assumes "names_invariant (tools, usedNames)"
    and "t_name t = resolveName usedNames (t_operationId t) (t_operationId t) 1"
  shows "names_invariant (tools @ [t], usedNames @ [t_name t])"
proof -
  from assms(1) have u: "usedNames = map t_name tools" and d: "distinct usedNames"
    and r: "\<forall>i<length tools.
           name_resolved (map t_name (take i tools)) (t_operationId (tools ! i)) (t_name (tools ! i))"
    by (auto simp: names_invariant_def)
  have new: "name_resolved usedNames (t_operationId t) (t_name t)"
    unfolding assms(2) by (rule resolveName_resolved)
  then have fresh: "t_name t \<notin> set usedNames" by (simp add: name_resolved_def)
  have "name_resolved (map t_name (take i (tools @ [t]))) (t_operationId ((tools @ [t]) ! i))
          (t_name ((tools @ [t]) ! i))" if "i < length (tools @ [t])" for i
  proof (cases "i < length tools")
    case True
    with r show ?thesis by (simp add: nth_append)
  next
    case False
    with that have "i = length tools" by simp
    with new u show ?thesis by simp
  qed
  with u d fresh show ?thesis by (auto simp: names_invariant_def)
qed

lemma extractMethods_invariant:
  "extractMethods g path pathItem methods (tools, usedNames) = Inr (tools', usedNames') \<Longrightarrow>
   names_invariant (tools, usedNames) \<Longrightarrow>
   names_invariant (tools', usedNames') \<and>
   map tool_key tools' = map tool_key tools @ item_operations g path pathItem methods"
proof (induction methods arbitrary: tools usedNames)
  case Nil
  then show ?case by (simp add: item_operations_def)
next
  case (Cons meth rest)
  show ?case
  proof (cases "map_of pathItem meth")
    case None
    with Cons.prems Cons.IH [of tools usedNames] show ?thesis
      by (simp add: item_operations_def)
  next
    case (Some operation)
    define baseName where "baseName = or_else (op_operationId operation) (g meth path)"
    show ?thesis
    proof (cases "baseName = []")
      case True
      with Some Cons.prems Cons.IH [of tools usedNames] show ?thesis
        by (simp add: item_operations_def baseName_def)
    next
      case False
      from Some Cons.prems(1) False obtain inputSchema parameters requestBody where
        run0: "extractMethods g path pathItem rest
                 (tools @ [\<lparr>t_name = resolveName usedNames baseName baseName 1,
                             t_description = or_else (op_description operation)
                               (or_else (op_summary operation)
                                  (''Executes '' @ toUpperCase meth @ '' '' @ path)),
                             t_inputSchema = inputSchema, t_operationId = baseName,
                             t_method = meth, t_path = path,
                             t_parameters = parameters, t_requestBody = requestBody\<rparr>],
                  usedNames @ [resolveName usedNames baseName baseName 1])
               = Inr (tools', usedNames')"
        by (auto simp: baseName_def [symmetric] Let_def split: sum.splits)
      define t where "t = \<lparr>t_name = resolveName usedNames baseName baseName 1,
                             t_description = or_else (op_description operation)
                               (or_else (op_summary operation)
                                  (''Executes '' @ toUpperCase meth @ '' '' @ path)),
                             t_inputSchema = inputSchema, t_operationId = baseName,
                             t_method = meth, t_path = path,
                             t_parameters = parameters, t_requestBody = requestBody\<rparr>"
      have t: "t_name t = resolveName usedNames baseName baseName 1" "t_operationId t = baseName"
           "t_method t = meth" "t_path t = path"
        by (simp_all add: t_def)
      from run0 have run: "extractMethods g path pathItem rest (tools @ [t], usedNames @ [t_name t])
                  = Inr (tools', usedNames')"
        by (simp add: t_def)
      from t have "names_invariant (tools @ [t], usedNames @ [t_name t])"
        by (intro names_invariant_step Cons.prems(2)) simp
      from Cons.IH [OF run this] Some False t show ?thesis
        by (simp add: item_operations_def baseName_def [symmetric] tool_key_def)
    qed
  qed
qed

lemma extractPaths_invariant:
  "extractPaths g HttpMethods ps st = Inr st' \<Longrightarrow> names_invariant st \<Longrightarrow>
   names_invariant st' \<and>
   map tool_key (fst st') = map tool_key (fst st) @
     concat (map (\<lambda>(path, pathItem).
        case pathItem of None \<Rightarrow> [] | Some item \<Rightarrow> item_operations g path item HttpMethods) ps)"
proof (induction ps arbitrary: st)
  case Nil
  then show ?case by simp
next
  case (Cons entry rest)
  obtain path pathItem where entry: "entry = (path, pathItem)" by (cases entry)
  show ?case
  proof (cases pathItem)
    case None
    with Cons.prems Cons.IH [of st] entry show ?thesis by simp
  next
    case (Some item)
    with Cons.prems(1) entry obtain mid where
      m: "extractMethods g path item HttpMethods st = Inr mid"
      and r: "extractPaths g HttpMethods rest mid = Inr st'"
      by (auto split: sum.splits)
    obtain tools usedNames where st: "st = (tools, usedNames)" by (cases st)
    obtain tools1 used1 where mid: "mid = (tools1, used1)" by (cases mid)
    from extractMethods_invariant [OF m [unfolded st mid]] Cons.prems(2) st
    have "names_invariant mid"
      and "map tool_key tools1 = map tool_key tools @ item_operations g path item HttpMethods"
      by (simp_all add: mid)
    with Cons.IH [OF r] entry Some st mid show ?thesis by simp
  qed
qed

subsection \<open>The extraction returns\<close>

lemma addParameters_returns:
  "\<forall>p\<in>set ps. truthy (p_schema p) \<longrightarrow> is_object (p_schema p) \<Longrightarrow>
   \<exists>st'. addParameters ps st = Inr st'"
proof (induction ps arbitrary: st)
  case Nil
  show ?case by simp
next
  case (Cons param rest)
  obtain properties required where st: "st = (properties, required)" by (cases st)
  show ?case
  proof (cases "p_name param = [] \<or> \<not> truthy (p_schema param)")
    case True
    with Cons st show ?thesis by simp
  next
    case False
    with Cons.prems have "is_object (p_schema param)" by simp
    with map_returns(1) obtain r where "mapOpenApiSchemaToJsonSchema (p_schema param) = Inr (JObj r)"
      by blast
    with False Cons st show ?thesis by simp
  qed
qed

lemma addRequestBody_returns:
  assumes "\<forall>rb\<in>set_option body. \<forall>schema\<in>set_option (json_schema_of rb). is_object schema"
  shows "\<exists>st'. addRequestBody body st = Inr st'"
proof (cases body)
  case None
  then show ?thesis by (simp add: addRequestBody_def)
next
  case (Some rb)
  obtain properties required where st: "st = (properties, required)" by (cases st)
  show ?thesis
  proof (cases "json_schema_of rb")
    case None
    with Some st show ?thesis
      by (simp add: addRequestBody_def split: list.splits prod.splits)
  next
    case (Some schema)
    with assms \<open>body = Some rb\<close> have "is_object schema" by simp
    with map_returns(1) obtain r where "mapOpenApiSchemaToJsonSchema schema = Inr (JObj r)"
      by blast
    with Some \<open>body = Some rb\<close> st show ?thesis
      by (simp add: addRequestBody_def)
  qed
qed

lemma generateInputSchema_returns:
  assumes "schemas_are_objects operation"
  shows "\<exists>r. generateInputSchema operation = Inr r"
proof -
  from assms obtain properties proto required where
    a: "addParameters (op_parameters operation) (([], ObjectPrototype), []) = Inr ((properties, proto), required)"
    using addParameters_returns [of "op_parameters operation" "(([], ObjectPrototype), [])"]
    by (auto simp: schemas_are_objects_def)
  from assms obtain st' where "addRequestBody (op_requestBody operation) (properties, required) = Inr st'"
    using addRequestBody_returns [of "op_requestBody operation" "(properties, required)"]
    by (auto simp: schemas_are_objects_def)
  with a show ?thesis
    by (cases st') (simp add: generateInputSchema_def)
qed

lemma extractMethods_returns:
  assumes "\<forall>entry\<in>set pathItem. schemas_are_objects (snd entry)"
  shows "\<exists>st'. extractMethods g path pathItem methods st = Inr st'"
proof (induction methods arbitrary: st)
  case Nil
  show ?case by simp
next
  case (Cons m rest)
  obtain tools usedNames where st: "st = (tools, usedNames)" by (cases st)
  show ?case
  proof (cases "map_of pathItem m")
    case None
    with Cons st show ?thesis by simp
  next
    case (Some operation)
    then have "(m, operation) \<in> set pathItem" by (rule map_of_SomeD)
    with assms have "schemas_are_objects operation" by force
    then obtain r where "generateInputSchema operation = Inr r"
      using generateInputSchema_returns by blast
    with Some st Cons show ?thesis
      by (cases r) (simp add: Let_def)
  qed
qed

lemma extractPaths_returns:
  assumes "\<forall>entry\<in>set ps. \<forall>item\<in>set_option (snd entry). \<forall>e\<in>set item. schemas_are_objects (snd e)"
  shows "\<exists>st'. extractPaths g HttpMethods ps st = Inr st'"
  using assms
proof (induction ps arbitrary: st)
  case Nil
  show ?case by simp
next
  case (Cons entry rest)
  obtain path pathItem where entry: "entry = (path, pathItem)" by (cases entry)
  show ?case
  proof (cases pathItem)
    case None
    with Cons entry show ?thesis by simp
  next
    case (Some item)
    with Cons.prems entry have "\<forall>e\<in>set item. schemas_are_objects (snd e)" by simp
    then obtain mid where "extractMethods g path item HttpMethods st = Inr mid"
      using extractMethods_returns by blast
    with Cons Some entry show ?thesis by simp
  qed
qed

lemma extractToolsFromApi_returns:
  assumes "\<forall>ps\<in>set_option (doc_paths api).
             \<forall>entry\<in>set ps. \<forall>item\<in>set_option (snd entry). \<forall>e\<in>set item. schemas_are_objects (snd e)"
  shows "\<exists>tools. extractToolsFromApi HttpMethods generateOperationId api = Inr tools"
proof (cases "doc_paths api")
  case None
  then show ?thesis by (simp add: extractToolsFromApi_def)
next
  case (Some ps)
  with assms obtain st' where "extractPaths generateOperationId HttpMethods ps ([], []) = Inr st'"
    using extractPaths_returns [of ps generateOperationId HttpMethods "([], [])"] by auto
  with Some show ?thesis by (cases st') (simp add: extractToolsFromApi_def)
qed

subsection \<open>Base URL and handler\<close>

lemma replace_trailing_slash_eq: "replace_trailing_slash s = without_trailing_slash s"
  by (induction s) (auto simp: without_trailing_slash_def)

lemma substitute_absent:
  "\<forall>p\<in>set ps. \<not> present (jsget validatedArgs (p_name p)) \<Longrightarrow>
   substitutePathParams enc ps validatedArgs urlPath = urlPath"
  by (induction ps arbitrary: urlPath) simp_all

text \<open>
  A tool whose path template has a placeholder, called with none of its path
  parameters: the template is left as it is.
\<close>

lemma omitted_parameters_keep_template:
  assumes "\<forall>p\<in>set (t_parameters tool). p_in p = ''path'' \<longrightarrow> \<not> present (jsget validatedArgs (p_name p))"
  shows "buildUrlPath host tool validatedArgs = t_path tool"
  unfolding buildUrlPath_def using assms by (intro substitute_absent) simp

lemma users_tool_call:
  "handleCallTool example_host (Some ''https://api.example.com'') [users_tool] ''getUsersById''
     (JObj [(''id'', JStr ''42'')])
   = \<lparr>r_kind = ApiResponse,
      r_requests = [\<lparr>cfg_method = ''GET'', cfg_url = ''https://api.example.com/users/42'',
                      cfg_params = [], cfg_headers = [(''Accept'', ''application/json'')],
                      cfg_data = None\<rparr>],
      r_text = ''API Response (Status: 200):'' @ [CHR 0x0A] @ ''{}''\<rparr>"
  by code_simp

section \<open>The claims\<close>

text \<open>
  C1 (evaluated on the code). The translator keeps no record of the nodes it is
  translating. On each of the two cyclic documents it re-enters the schema at address 0
  at every depth, so whatever the bound on the call stack, the call ends in a
  RangeError and returns no schema.
\<close>

theorem cyclic_schema_overflows:
  "mapSchemaH toStr depth self_cycle (HRef 0) = Inl RangeError \<and>
   mapSchemaH toStr depth mutual_cycle (HRef 0) = Inl RangeError"
  using self_cycle_overflows [of self_cycle toStr depth]
        mutual_cycle_overflows [of mutual_cycle toStr depth]
  by simp

text \<open>
  C2 (amended). When the arguments have passed validation and the URL path, which is
  the path template after the substitution of the path parameters and before the base
  URL is put in front of it, still contains \<open>{\<close>, the call returns the dispatch
  error from the handler's \<open>catch\<close>, which is not the validation failure, and no
  HTTP request has been executed.
\<close>

theorem unresolved_placeholder_fails:
  assumes "validateArgs host tool toolArgs = Parsed validatedArgs"
    and "CHR ''{'' \<in> set (buildUrlPath host tool validatedArgs)"
  shows "callTool host baseUrl tool toolName toolArgs =
           \<lparr>r_kind = ExecutionError, r_requests = [],
            r_text = dispatch_error (buildUrlPath host tool validatedArgs)\<rparr> \<and>
         r_kind (callTool host baseUrl tool toolName toolArgs) \<noteq> InvalidArguments \<and>
         r_text (callTool host baseUrl tool toolName toolArgs) \<noteq> validation_message toolName issues"
  using assms
  by (simp add: callTool_def executeTool_def Let_def dispatch_error_def validation_message_def)

text \<open>The theorem at a call of the example tool that leaves out \<open>id\<close>.\<close>

theorem unresolved_placeholder_fails_witness:
  "validateArgs example_host users_tool (JObj []) = Parsed [] \<and>
   CHR ''{'' \<in> set (buildUrlPath example_host users_tool []) \<and>
   callTool example_host (Some ''https://api.example.com'') users_tool ''getUsersById'' (JObj [])
     = \<lparr>r_kind = ExecutionError, r_requests = [],
        r_text = ''Validation passed but failed to resolve path parameters in URL: /users/{id}. Check schema/validation logic.''\<rparr>"
proof -
  have v: "validateArgs example_host users_tool (JObj []) = Parsed []"
    by code_simp
  have u: "buildUrlPath example_host users_tool [] = ''/users/{id}''"
    by code_simp
  have b: "CHR ''{'' \<in> set (buildUrlPath example_host users_tool [])"
    unfolding u by simp
  from unresolved_placeholder_fails [OF v b, of "Some ''https://api.example.com''" "''getUsersById''"] v b
  show ?thesis by (simp add: u dispatch_error_def)
qed

text \<open>
  C2 as stated fails for a server whose declared URL has a variable,
  \<open>https://{tenant}.example.com/\<close>: the test for \<open>{\<close> reads the path alone, so
  the call with \<open>id = "42"\<close> passes it and the request goes to a URL that still
  contains the placeholder \<open>{tenant}\<close>.
\<close>

theorem templated_server_counterexample:
  "determineBaseUrl \<lparr>doc_servers = Some [\<lparr>srv_url = ''https://{tenant}.example.com/''\<rparr>],
                     doc_paths = None\<rparr> None
     = Some ''https://{tenant}.example.com'' \<and>
   callTool example_host (Some ''https://{tenant}.example.com'') users_tool ''getUsersById''
       (JObj [(''id'', JStr ''42'')])
     = \<lparr>r_kind = ApiResponse,
        r_requests = [\<lparr>cfg_method = ''GET'', cfg_url = ''https://{tenant}.example.com/users/42'',
                        cfg_params = [], cfg_headers = [(''Accept'', ''application/json'')],
                        cfg_data = None\<rparr>],
        r_text = ''API Response (Status: 200):'' @ [CHR 0x0A] @ ''{}''\<rparr> \<and>
   CHR ''{'' \<in> set ''https://{tenant}.example.com/users/42''"
proof -
  have "callTool example_host (Some ''https://{tenant}.example.com'') users_tool ''getUsersById''
       (JObj [(''id'', JStr ''42'')])
     = \<lparr>r_kind = ApiResponse,
        r_requests = [\<lparr>cfg_method = ''GET'', cfg_url = ''https://{tenant}.example.com/users/42'',
                        cfg_params = [], cfg_headers = [(''Accept'', ''application/json'')],
                        cfg_data = None\<rparr>],
        r_text = ''API Response (Status: 200):'' @ [CHR 0x0A] @ ''{}''\<rparr>"
    by code_simp
  moreover have "determineBaseUrl \<lparr>doc_servers = Some [\<lparr>srv_url = ''https://{tenant}.example.com/''\<rparr>],
                     doc_paths = None\<rparr> None
     = Some ''https://{tenant}.example.com''"
    by code_simp
  ultimately show ?thesis by simp
qed

text \<open>
  C3. Whenever extraction returns a tool list, the tools are the operations that
  derive a name, in document order (paths as declared, methods in the order of the
  method list); each tool's name is free among the names of the tools before it, and
  is the base name or, when that is taken, the base name with the first free suffix
  \<open>_1\<close>, \<open>_2\<close>, \<dots>; so all names in the list are different.
\<close>

theorem tool_names_unique:
  assumes "extractToolsFromApi HttpMethods generateOperationId api = Inr tools"
  shows "map tool_key tools = derived_operations HttpMethods generateOperationId api \<and>
         distinct (map t_name tools) \<and>
         (\<forall>i<length tools.
            name_resolved (map t_name (take i tools)) (t_operationId (tools ! i)) (t_name (tools ! i)))"
proof (cases "doc_paths api")
  case None
  with assms show ?thesis
    by (simp add: extractToolsFromApi_def derived_operations_def)
next
  case (Some ps)
  with assms obtain usedNames where
    run: "extractPaths generateOperationId HttpMethods ps ([], []) = Inr (tools, usedNames)"
    by (auto simp: extractToolsFromApi_def split: sum.splits)
  have "names_invariant ([], [])" by (simp add: names_invariant_def)
  from extractPaths_invariant [OF run this] Some show ?thesis
    by (auto simp: names_invariant_def derived_operations_def)
qed

text \<open>The theorem at this document.\<close>

theorem tool_names_unique_witness:
  "\<exists>tools.
      extractToolsFromApi HttpMethods_values (\<lambda>method path. ''pets'') example_api = Inr tools \<and>
      map tool_key tools =
        [(''/pets'', ''get'', ''pets''), (''/pets'', ''post'', ''pets''), (''/pets/{id}'', ''get'', ''pets'')] \<and>
      map t_name tools = [''pets'', ''pets_1'', ''pets_2''] \<and>
      distinct (map t_name tools)"
proof -
  have run: "map_sum id (\<lambda>tools. (map tool_key tools, map t_name tools))
               (extractToolsFromApi HttpMethods_values (\<lambda>method path. ''pets'') example_api)
             = Inr ([(''/pets'', ''get'', ''pets''), (''/pets'', ''post'', ''pets''),
                     (''/pets/{id}'', ''get'', ''pets'')],
                    [''pets'', ''pets_1'', ''pets_2''])"
    by code_simp
  then obtain tools where
    r: "extractToolsFromApi HttpMethods_values (\<lambda>method path. ''pets'') example_api = Inr tools"
    and n: "map tool_key tools =
              [(''/pets'', ''get'', ''pets''), (''/pets'', ''post'', ''pets''), (''/pets/{id}'', ''get'', ''pets'')]"
           "map t_name tools = [''pets'', ''pets_1'', ''pets_2'']"
    by (cases "extractToolsFromApi HttpMethods_values (\<lambda>method path. ''pets'') example_api") auto
  from tool_names_unique [OF r] have d: "distinct (map t_name tools)" by simp
  show ?thesis
  proof (rule exI [of _ tools], intro conjI)
    show "extractToolsFromApi HttpMethods_values (\<lambda>method path. ''pets'') example_api = Inr tools"
      by (rule r)
    show "map tool_key tools =
            [(''/pets'', ''get'', ''pets''), (''/pets'', ''post'', ''pets''), (''/pets/{id}'', ''get'', ''pets'')]"
      by (rule n)
    show "map t_name tools = [''pets'', ''pets_1'', ''pets_2'']" by (rule n)
    show "distinct (map t_name tools)" by (rule d)
  qed
qed

text \<open>
  C4 (amended). The translation of a schema node has none of the fields \<open>example\<close>,
  \<open>xml\<close>, \<open>externalDocs\<close>, \<open>deprecated\<close>, \<open>readOnly\<close> and \<open>writeOnly\<close>, and
  neither has any property schema nested in a translated schema whose type is exactly
  \<open>"object"\<close> nor the item schema of one whose type is exactly \<open>"array"\<close>,
  transitively.
\<close>

theorem presentation_fields_stripped:
  assumes "is_object schema"
  shows "\<exists>r. mapOpenApiSchemaToJsonSchema schema = Inr r \<and> stripped r"
proof -
  from map_returns(1) assms obtain r where "mapOpenApiSchemaToJsonSchema schema = Inr (JObj r)"
    by blast
  with map_stripped(1) show ?thesis by blast
qed

text \<open>The theorem at an object schema with a nested array of strings.\<close>

theorem presentation_fields_stripped_witness:
  "is_object (JObj [(''type'', JStr ''object''), (''example'', JObj []),
      (''properties'', JObj
         [(''id'', JObj [(''type'', JStr ''integer''), (''readOnly'', JBool True)]),
          (''tags'', JObj [(''type'', JStr ''array''), (''deprecated'', JBool True),
             (''items'', JObj [(''type'', JStr ''string''), (''example'', JStr ''x'')])])])]) \<and>
   mapOpenApiSchemaToJsonSchema (JObj [(''type'', JStr ''object''), (''example'', JObj []),
      (''properties'', JObj
         [(''id'', JObj [(''type'', JStr ''integer''), (''readOnly'', JBool True)]),
          (''tags'', JObj [(''type'', JStr ''array''), (''deprecated'', JBool True),
             (''items'', JObj [(''type'', JStr ''string''), (''example'', JStr ''x'')])])])])
     = Inr (JObj [(''type'', JStr ''object''),
      (''properties'', JObj
         [(''id'', JObj [(''type'', JStr ''number'')]),
          (''tags'', JObj [(''type'', JStr ''array''),
             (''items'', JObj [(''type'', JStr ''string'')])])])]) \<and>
   stripped (JObj [(''type'', JStr ''object''),
      (''properties'', JObj
         [(''id'', JObj [(''type'', JStr ''number'')]),
          (''tags'', JObj [(''type'', JStr ''array''),
             (''items'', JObj [(''type'', JStr ''string'')])])])])"
proof -
  have obj: "is_object (JObj [(''type'', JStr ''object''), (''example'', JObj []),
      (''properties'', JObj
         [(''id'', JObj [(''type'', JStr ''integer''), (''readOnly'', JBool True)]),
          (''tags'', JObj [(''type'', JStr ''array''), (''deprecated'', JBool True),
             (''items'', JObj [(''type'', JStr ''string''), (''example'', JStr ''x'')])])])])"
    by simp
  have run: "mapOpenApiSchemaToJsonSchema (JObj [(''type'', JStr ''object''), (''example'', JObj []),
      (''properties'', JObj
         [(''id'', JObj [(''type'', JStr ''integer''), (''readOnly'', JBool True)]),
          (''tags'', JObj [(''type'', JStr ''array''), (''deprecated'', JBool True),
             (''items'', JObj [(''type'', JStr ''string''), (''example'', JStr ''x'')])])])])
     = Inr (JObj [(''type'', JStr ''object''),
      (''properties'', JObj
         [(''id'', JObj [(''type'', JStr ''number'')]),
          (''tags'', JObj [(''type'', JStr ''array''),
             (''items'', JObj [(''type'', JStr ''string'')])])])])"
    by code_simp
  from presentation_fields_stripped [OF obj] run obj show ?thesis by auto
qed

text \<open>
  C4 as stated fails at a schema that lists properties without declaring a type: the
  guard \<open>jsonSchema.type === 'object'\<close> keeps the property schemas untranslated, so
  the nested schema still has its \<open>example\<close>.
\<close>

theorem untyped_properties_counterexample:
  "mapOpenApiSchemaToJsonSchema
     (JObj [(''properties'', JObj [(''a'', JObj [(''type'', JStr ''string''), (''example'', JStr ''x'')])])])
     = Inr (JObj [(''properties'', JObj [(''a'', JObj [(''type'', JStr ''string''), (''example'', JStr ''x'')])])]) \<and>
   has_key ''example''
     (own_entries (jsget (own_entries (jsget
        [(''properties'', JObj [(''a'', JObj [(''type'', JStr ''string''), (''example'', JStr ''x'')])])]
        ''properties'')) ''a''))"
  by code_simp

text \<open>
  C5 (evaluated on the code). For the operation whose one parameter is required and
  named \<open>__proto__\<close>, the assignment \<open>properties[param.name] = paramSchema\<close> replaces
  the prototype of \<open>properties\<close> and creates no property, and \<open>required.push\<close> still
  adds the name: the input schema requires \<open>__proto__\<close> and has no property at all.
\<close>

theorem proto_parameter_required_without_property:
  "generateInputSchema proto_operation =
     Inr (JObj [(''type'', JStr ''object''), (''properties'', JObj []),
                (''required'', JArr [JStr ''__proto__''])],
          op_parameters proto_operation, None) \<and>
   required_names (JObj [(''type'', JStr ''object''), (''properties'', JObj []),
                         (''required'', JArr [JStr ''__proto__''])]) = [''__proto__''] \<and>
   property_names (JObj [(''type'', JStr ''object''), (''properties'', JObj []),
                         (''required'', JArr [JStr ''__proto__''])]) = []"
  by code_simp

text \<open>
  C6 (amended). For every schema node, not an unresolved reference, whose declared type
  is the name \<open>"integer"\<close>, the translation is a schema whose type is \<open>"number"\<close>, or
  the pair \<open>["number", "null"]\<close> when the node is also flagged nullable. Read as the
  \<open>type\<close> keyword of JSON Schema, that type admits numbers with a fractional part
  beside the integers, and admits no string; the other keywords of the node (an
  \<open>enum\<close>, say) are kept and restrict the values as before. Every other declared type
  name passes through unchanged, joined with \<open>"null"\<close> in the same way when the node
  is nullable. A declared list of type names is not coerced: it passes through as it
  is, with \<open>"null"\<close> added at its end when the node is nullable and the list lacks
  it.
\<close>

theorem integer_type_coerced:
  assumes "is_object schema" and "\<not> has_key ''$ref'' (own_entries schema)"
  shows "\<exists>r. mapOpenApiSchemaToJsonSchema schema = Inr (JObj r) \<and>
     (let declared = jsget (own_entries schema) ''type'';
          nullable = truthy (jsget (own_entries schema) ''nullable'')
      in (declared = JStr ''integer'' \<longrightarrow>
            jsget r ''type'' =
              (if nullable then JArr [JStr ''number'', JStr ''null''] else JStr ''number'') \<and>
            type_admits (jsget r ''type'') FractionalValue \<and>
            type_admits (jsget r ''type'') IntegerValue \<and>
            \<not> type_admits (jsget r ''type'') StringValue) \<and>
         (\<forall>t. declared = JStr t \<and> t \<noteq> ''integer'' \<longrightarrow>
            jsget r ''type'' = (if nullable then JArr [JStr t, JStr ''null''] else JStr t)) \<and>
         (\<forall>ts. declared = JArr ts \<longrightarrow>
            jsget r ''type'' =
              (if nullable \<and> JStr ''null'' \<notin> set ts then JArr (ts @ [JStr ''null'']) else JArr ts)) \<and>
         (\<forall>k. k \<notin> set ([''type'', ''nullable'', ''properties'', ''items''] @ presentation_fields) \<longrightarrow>
            jsget r k = jsget (own_entries schema) k))"
proof -
  from map_returns(1) assms(1) obtain r where r: "mapOpenApiSchemaToJsonSchema schema = Inr (JObj r)"
    by blast
  have ty: "jsget r ''type'' = jsget (schema_head schema) ''type''"
    using map_result_field [OF assms r, of "''type''"] by simp
  have kept: "jsget r k = jsget (own_entries schema) k"
    if "k \<notin> set ([''type'', ''nullable'', ''properties'', ''items''] @ presentation_fields)" for k
  proof -
    from that have "jsget r k = jsget (schema_head schema) k"
      using map_result_field [OF assms r, of k] by simp
    also from that have "\<dots> = jsget (own_entries schema) k"
      by (intro jsget_schema_head_other) simp_all
    finally show ?thesis .
  qed
  show ?thesis
  proof (intro exI [of _ r] conjI)
    show "mapOpenApiSchemaToJsonSchema schema = Inr (JObj r)" by (rule r)
    show "let declared = jsget (own_entries schema) ''type'';
              nullable = truthy (jsget (own_entries schema) ''nullable'')
          in (declared = JStr ''integer'' \<longrightarrow>
                jsget r ''type'' =
                  (if nullable then JArr [JStr ''number'', JStr ''null''] else JStr ''number'') \<and>
                type_admits (jsget r ''type'') FractionalValue \<and>
                type_admits (jsget r ''type'') IntegerValue \<and>
                \<not> type_admits (jsget r ''type'') StringValue) \<and>
             (\<forall>t. declared = JStr t \<and> t \<noteq> ''integer'' \<longrightarrow>
                jsget r ''type'' = (if nullable then JArr [JStr t, JStr ''null''] else JStr t)) \<and>
             (\<forall>ts. declared = JArr ts \<longrightarrow>
                jsget r ''type'' =
                  (if nullable \<and> JStr ''null'' \<notin> set ts then JArr (ts @ [JStr ''null'']) else JArr ts)) \<and>
             (\<forall>k. k \<notin> set ([''type'', ''nullable'', ''properties'', ''items''] @ presentation_fields) \<longrightarrow>
                jsget r k = jsget (own_entries schema) k)"
      unfolding Let_def
    proof (intro conjI allI impI)
      fix k
      assume "k \<notin> set ([''type'', ''nullable'', ''properties'', ''items''] @ presentation_fields)"
      then show "jsget r k = jsget (own_entries schema) k" by (rule kept)
    qed (auto simp: ty schema_head_type Let_def)
  qed
qed

text \<open>
  The theorem at an integer node with a lower bound, and at the same node flagged
  nullable.
\<close>

theorem integer_type_coerced_witness:
  "is_object (JObj [(''type'', JStr ''integer''), (''minimum'', JNum 0)]) \<and>
   \<not> has_key ''$ref'' (own_entries (JObj [(''type'', JStr ''integer''), (''minimum'', JNum 0)])) \<and>
   jsget (own_entries (JObj [(''type'', JStr ''integer''), (''minimum'', JNum 0)])) ''type'' = JStr ''integer'' \<and>
   (\<exists>r. mapOpenApiSchemaToJsonSchema (JObj [(''type'', JStr ''integer''), (''minimum'', JNum 0)]) = Inr (JObj r) \<and>
        jsget r ''type'' = JStr ''number'' \<and>
        type_admits (jsget r ''type'') FractionalValue \<and>
        \<not> type_admits (jsget r ''type'') StringValue \<and>
        jsget r ''minimum'' = JNum 0) \<and>
   (\<exists>r. mapOpenApiSchemaToJsonSchema
          (JObj [(''type'', JStr ''integer''), (''minimum'', JNum 0), (''nullable'', JBool True)]) = Inr (JObj r) \<and>
        jsget r ''type'' = JArr [JStr ''number'', JStr ''null''] \<and>
        type_admits (jsget r ''type'') FractionalValue \<and>
        \<not> type_admits (jsget r ''type'') StringValue)"
proof -
  let ?s = "JObj [(''type'', JStr ''integer''), (''minimum'', JNum 0)]"
  let ?n = "JObj [(''type'', JStr ''integer''), (''minimum'', JNum 0), (''nullable'', JBool True)]"
  have a: "is_object ?s" "\<not> has_key ''$ref'' (own_entries ?s)"
    by (simp_all add: has_key_def)
  have b: "is_object ?n" "\<not> has_key ''$ref'' (own_entries ?n)"
    by (simp_all add: has_key_def)
  have d: "jsget (own_entries ?s) ''type'' = JStr ''integer''"
    "truthy (jsget (own_entries ?s) ''nullable'') = False"
    "jsget (own_entries ?s) ''minimum'' = JNum 0"
    "jsget (own_entries ?n) ''type'' = JStr ''integer''"
    "truthy (jsget (own_entries ?n) ''nullable'') = True"
    by (simp_all add: jsget_def)
  have k: "''minimum'' \<notin> set ([''type'', ''nullable'', ''properties'', ''items''] @ presentation_fields)"
    by (simp add: presentation_fields_def)
  from integer_type_coerced [OF a] obtain r where
    r: "mapOpenApiSchemaToJsonSchema ?s = Inr (JObj r)"
    and ty: "jsget r ''type'' = JStr ''number''"
      "type_admits (jsget r ''type'') FractionalValue"
      "\<not> type_admits (jsget r ''type'') StringValue"
    and kept: "\<forall>k. k \<notin> set ([''type'', ''nullable'', ''properties'', ''items''] @ presentation_fields) \<longrightarrow>
            jsget r k = jsget (own_entries ?s) k"
    unfolding Let_def d by (elim exE conjE) simp
  from kept k d(3) have m: "jsget r ''minimum'' = JNum 0" by metis
  from integer_type_coerced [OF b] obtain r' where
    r': "mapOpenApiSchemaToJsonSchema ?n = Inr (JObj r')"
    and ty': "jsget r' ''type'' = JArr [JStr ''number'', JStr ''null'']"
      "type_admits (jsget r' ''type'') FractionalValue"
      "\<not> type_admits (jsget r' ''type'') StringValue"
    unfolding Let_def d by (elim exE conjE) simp
  from a d(1) r ty m r' ty' show ?thesis by blast
qed

text \<open>
  C6 as stated fails at a nullable integer node with an enumeration: its translated type
  is the array \<open>["number", "null"]\<close>, not \<open>"number"\<close>, and the enumeration, which
  lists integers only, is kept.
\<close>

theorem integer_nullable_counterexample:
  "jsget (own_entries (JObj [(''type'', JStr ''integer''), (''nullable'', JBool True),
                            (''enum'', JArr [JNum 1, JNum 2])])) ''type'' = JStr ''integer'' \<and>
   mapOpenApiSchemaToJsonSchema (JObj [(''type'', JStr ''integer''), (''nullable'', JBool True),
                                       (''enum'', JArr [JNum 1, JNum 2])])
     = Inr (JObj [(''type'', JArr [JStr ''number'', JStr ''null'']), (''enum'', JArr [JNum 1, JNum 2])]) \<and>
   jsget [(''type'', JArr [JStr ''number'', JStr ''null'']), (''enum'', JArr [JNum 1, JNum 2])] ''type''
     \<noteq> JStr ''number'' \<and>
   jsget [(''type'', JArr [JStr ''number'', JStr ''null'']), (''enum'', JArr [JNum 1, JNum 2])] ''enum''
     = JArr [JNum 1, JNum 2]"
  by code_simp

text \<open>
  C7 (amended). For every schema node flagged nullable that is not an unresolved
  reference: when the declared type is a single name, the translated type is the pair of
  that name and \<open>"null"\<close>, with the name \<open>"integer"\<close> replaced by \<open>"number"\<close>; when
  the declared type is a list of names, the translated type is that list as it is (an
  \<open>"integer"\<close> in it is kept), with \<open>"null"\<close> added at the end unless the list has
  it, so its names are the declared ones and \<open>"null"\<close>; when the node declares no
  type, the translated type is exactly \<open>"null"\<close>.
\<close>

theorem nullable_type_union:
  assumes "is_object schema" and "\<not> has_key ''$ref'' (own_entries schema)"
    and "truthy (jsget (own_entries schema) ''nullable'')"
  shows "\<exists>r. mapOpenApiSchemaToJsonSchema schema = Inr (JObj r) \<and>
     (let declared = jsget (own_entries schema) ''type'';
          translated = jsget r ''type''
      in (declared = JStr ''integer'' \<longrightarrow> translated = JArr [JStr ''number'', JStr ''null'']) \<and>
         (\<forall>t. declared = JStr t \<and> t \<noteq> ''integer'' \<longrightarrow> translated = JArr [JStr t, JStr ''null'']) \<and>
         (\<forall>ts. declared = JArr ts \<longrightarrow>
            translated = (if JStr ''null'' \<in> set ts then JArr ts else JArr (ts @ [JStr ''null''])) \<and>
            type_names translated = set ts \<union> {JStr ''null''}) \<and>
         (declared = JUndefined \<longrightarrow> translated = JStr ''null''))"
proof -
  from map_returns(1) assms(1) obtain r where r: "mapOpenApiSchemaToJsonSchema schema = Inr (JObj r)"
    by blast
  have "jsget r ''type'' = jsget (schema_head schema) ''type''"
    using map_result_field [OF assms(1,2) r, of "''type''"] by simp
  with r assms(3) show ?thesis
    by (auto simp: schema_head_type Let_def split: if_splits)
qed

text \<open>
  The theorem at a nullable string node and at a nullable node whose declared type is
  the list of \<open>"integer"\<close> and \<open>"string"\<close>.
\<close>

theorem nullable_type_union_witness:
  "is_object (JObj [(''type'', JStr ''string''), (''nullable'', JBool True)]) \<and>
   \<not> has_key ''$ref'' (own_entries (JObj [(''type'', JStr ''string''), (''nullable'', JBool True)])) \<and>
   truthy (jsget (own_entries (JObj [(''type'', JStr ''string''), (''nullable'', JBool True)])) ''nullable'') \<and>
   (\<exists>r. mapOpenApiSchemaToJsonSchema (JObj [(''type'', JStr ''string''), (''nullable'', JBool True)]) = Inr (JObj r) \<and>
        jsget r ''type'' = JArr [JStr ''string'', JStr ''null'']) \<and>
   (\<exists>r. mapOpenApiSchemaToJsonSchema
          (JObj [(''type'', JArr [JStr ''integer'', JStr ''string'']), (''nullable'', JBool True)]) = Inr (JObj r) \<and>
        jsget r ''type'' = JArr [JStr ''integer'', JStr ''string'', JStr ''null''] \<and>
        type_names (jsget r ''type'') = {JStr ''integer'', JStr ''string'', JStr ''null''})"
proof -
  let ?s = "JObj [(''type'', JStr ''string''), (''nullable'', JBool True)]"
  let ?l = "JObj [(''type'', JArr [JStr ''integer'', JStr ''string'']), (''nullable'', JBool True)]"
  have pre: "is_object ?s" "\<not> has_key ''$ref'' (own_entries ?s)"
    "truthy (jsget (own_entries ?s) ''nullable'')"
    by (simp_all add: has_key_def jsget_def)
  have pre': "is_object ?l" "\<not> has_key ''$ref'' (own_entries ?l)"
    "truthy (jsget (own_entries ?l) ''nullable'')"
    by (simp_all add: has_key_def jsget_def)
  have d: "jsget (own_entries ?s) ''type'' = JStr ''string''"
    "jsget (own_entries ?l) ''type'' = JArr [JStr ''integer'', JStr ''string'']"
    by (simp_all add: jsget_def)
  from nullable_type_union [OF pre] obtain r where
    r: "mapOpenApiSchemaToJsonSchema ?s = Inr (JObj r)"
    and ty: "jsget r ''type'' = JArr [JStr ''string'', JStr ''null'']"
    unfolding Let_def d by (elim exE conjE) simp
  from nullable_type_union [OF pre'] obtain r' where
    r': "mapOpenApiSchemaToJsonSchema ?l = Inr (JObj r')"
    and ty': "jsget r' ''type'' = JArr [JStr ''integer'', JStr ''string'', JStr ''null'']"
    unfolding Let_def d by (elim exE conjE) simp
  have names: "type_names (jsget r' ''type'') = {JStr ''integer'', JStr ''string'', JStr ''null''}"
    unfolding ty' by simp
  from pre r ty r' ty' names show ?thesis by blast
qed

text \<open>
  C7 as stated fails at a nullable integer node: the declared name \<open>"integer"\<close> is
  not among the translated type names, which are \<open>"number"\<close> and \<open>"null"\<close>.
\<close>

theorem nullable_integer_counterexample:
  "truthy (jsget (own_entries (JObj [(''type'', JStr ''integer''), (''nullable'', JBool True), (''format'', JStr ''int64'')])) ''nullable'') \<and>
   mapOpenApiSchemaToJsonSchema (JObj [(''type'', JStr ''integer''), (''nullable'', JBool True), (''format'', JStr ''int64'')])
     = Inr (JObj [(''type'', JArr [JStr ''number'', JStr ''null'']), (''format'', JStr ''int64'')]) \<and>
   JStr ''integer'' \<in> type_names (jsget (own_entries (JObj [(''type'', JStr ''integer''), (''nullable'', JBool True), (''format'', JStr ''int64'')])) ''type'') \<and>
   JStr ''integer'' \<notin> type_names (jsget [(''type'', JArr [JStr ''number'', JStr ''null'']), (''format'', JStr ''int64'')] ''type'')"
proof -
  have "mapOpenApiSchemaToJsonSchema (JObj [(''type'', JStr ''integer''), (''nullable'', JBool True), (''format'', JStr ''int64'')])
     = Inr (JObj [(''type'', JArr [JStr ''number'', JStr ''null'']), (''format'', JStr ''int64'')])"
    by code_simp
  then show ?thesis by (simp add: jsget_def)
qed




text \<open>
  C9. When the input schema is not an object, or its conversion fails, or the
  evaluation of the converted schema fails, the validator is the open passthrough
  schema: every object passes as it is, a value that is not an object is replaced by the
  empty object, and the call goes on to dispatch with these arguments.
\<close>

theorem validator_falls_back:
  assumes "\<not> is_object (t_inputSchema tool) \<or>
           h_jsonSchemaToZod host (t_inputSchema tool) = None \<or>
           (\<exists>s. h_jsonSchemaToZod host (t_inputSchema tool) = Some s \<and> h_eval host s = None)"
  shows "getZodSchemaFromJsonSchema host (t_inputSchema tool) = passthrough_object \<and>
         (\<forall>kvs. validateArgs host tool (JObj kvs) = Parsed kvs \<and>
                callTool host baseUrl tool toolName (JObj kvs) = executeTool host baseUrl tool kvs) \<and>
         (\<not> is_object toolArgs \<longrightarrow>
            callTool host baseUrl tool toolName toolArgs = executeTool host baseUrl tool [])"
proof -
  from assms have z: "getZodSchemaFromJsonSchema host (t_inputSchema tool) = passthrough_object"
    by (auto simp: getZodSchemaFromJsonSchema_def)
  then show ?thesis
    by (simp add: validateArgs_def callTool_def passthrough_object_def)
qed

text \<open>The theorem at the example host, whose schema conversion fails.\<close>

theorem validator_falls_back_witness:
  "h_jsonSchemaToZod example_host (t_inputSchema users_tool) = None \<and>
   getZodSchemaFromJsonSchema example_host (t_inputSchema users_tool) = passthrough_object \<and>
   validateArgs example_host users_tool (JObj [(''unexpected'', JNum 1)]) = Parsed [(''unexpected'', JNum 1)] \<and>
   callTool example_host None users_tool ''getUsersById'' (JObj [(''unexpected'', JNum 1)])
     = executeTool example_host None users_tool [(''unexpected'', JNum 1)] \<and>
   callTool example_host None users_tool ''getUsersById'' JUndefined
     = executeTool example_host None users_tool []"
proof -
  have f: "h_jsonSchemaToZod example_host (t_inputSchema users_tool) = None"
    by (simp add: example_host_def)
  then have "\<not> is_object (t_inputSchema users_tool) \<or>
        h_jsonSchemaToZod example_host (t_inputSchema users_tool) = None \<or>
        (\<exists>s. h_jsonSchemaToZod example_host (t_inputSchema users_tool) = Some s \<and>
             h_eval example_host s = None)"
    by simp
  from validator_falls_back [OF this, of None "''getUsersById''" JUndefined] f
  show ?thesis by simp
qed

text \<open>
  C10. Whichever URL is chosen (a non-empty override, else the non-empty URL of the
  single declared server, else the URL of the first of several declared servers), the
  result is that URL without one trailing slash; with no override and no declared
  server the result is \<open>null\<close>, as it is for a single server whose URL is empty.
\<close>

theorem determineBaseUrl_strips_slash:
  "(u \<noteq> [] \<longrightarrow> determineBaseUrl api (Some u) = Some (without_trailing_slash u)) \<and>
   (\<not> truthy_str cmd \<and> doc_servers api = Some [s] \<and> srv_url s \<noteq> [] \<longrightarrow>
      determineBaseUrl api cmd = Some (without_trailing_slash (srv_url s))) \<and>
   (\<not> truthy_str cmd \<and> doc_servers api = Some (s # s' # ss) \<longrightarrow>
      determineBaseUrl api cmd = Some (without_trailing_slash (srv_url s))) \<and>
   (\<not> truthy_str cmd \<and> (doc_servers api = None \<or> doc_servers api = Some []) \<longrightarrow>
      determineBaseUrl api cmd = None) \<and>
   (\<not> truthy_str cmd \<and> doc_servers api = Some [s] \<and> srv_url s = [] \<longrightarrow>
      determineBaseUrl api cmd = None) \<and>
   without_trailing_slash (v @ ''/'') = v \<and>
   (u = [] \<or> last u \<noteq> CHR ''/'' \<longrightarrow> without_trailing_slash u = u)"
  by (auto simp: determineBaseUrl_def replace_trailing_slash_eq without_trailing_slash_def)

text \<open>The theorem at an override, at one server, at two servers and at no server.\<close>

theorem determineBaseUrl_strips_slash_witness:
  "determineBaseUrl \<lparr>doc_servers = Some [\<lparr>srv_url = ''https://api.example.com/v1/''\<rparr>], doc_paths = None\<rparr>
      (Some ''http://localhost:3000/'') = Some ''http://localhost:3000'' \<and>
   determineBaseUrl \<lparr>doc_servers = Some [\<lparr>srv_url = ''https://api.example.com/v1/''\<rparr>], doc_paths = None\<rparr>
      None = Some ''https://api.example.com/v1'' \<and>
   determineBaseUrl \<lparr>doc_servers = Some [\<lparr>srv_url = ''https://a.example//''\<rparr>, \<lparr>srv_url = ''https://b.example''\<rparr>],
                     doc_paths = None\<rparr> (Some []) = Some ''https://a.example/'' \<and>
   determineBaseUrl \<lparr>doc_servers = None, doc_paths = None\<rparr> None = None"
  using
    determineBaseUrl_strips_slash [of "''http://localhost:3000/''"
      "\<lparr>doc_servers = Some [\<lparr>srv_url = ''https://api.example.com/v1/''\<rparr>], doc_paths = None\<rparr>"
      None "\<lparr>srv_url = ''https://api.example.com/v1/''\<rparr>"]
    determineBaseUrl_strips_slash [of _
      "\<lparr>doc_servers = Some [\<lparr>srv_url = ''https://a.example//''\<rparr>, \<lparr>srv_url = ''https://b.example''\<rparr>],
                     doc_paths = None\<rparr>"
      "Some []" "\<lparr>srv_url = ''https://a.example//''\<rparr>" "\<lparr>srv_url = ''https://b.example''\<rparr>" "[]"]
    determineBaseUrl_strips_slash [of _ "\<lparr>doc_servers = None, doc_paths = None\<rparr>" None]
  by (simp add: without_trailing_slash_def)

end
